theory Spec2Isabelle
  imports Complex_Main "HOL-Library.Word"
begin

unbundle bit_operations_syntax

section \<open>The OCR relay of \<open>backend/main.py\<close>\<close>

text \<open>
  The module has two functions of interest.  \<open>perform_ocr\<close> posts an image and a prompt to
  the inference endpoint, reads the streamed answer chunk by chunk and accumulates the text
  deltas; \<open>draw_bounding_boxes\<close> finds the coordinate tuples \<open>[[a, b, c, d]]\<close> in that text,
  scales them to the image and draws them.

  Python values are modelled as follows.  A \<open>str\<close> is a \<open>string\<close> whose characters are the
  code points below 256; \<open>bytes\<close> is a list of 8-bit words; an \<open>int\<close> is an \<open>int\<close>; a
  \<open>float\<close> is the rational number it denotes.  Every \<open>raise\<close> is a value \<open>Inl e\<close> of a sum
  type.

  Of the four \<open>print\<close> calls, the one of line 94 writes the text delta that the endpoint
  sent: it can raise (a \<open>UnicodeEncodeError\<close> when the console cannot encode the text), and
  the model takes its outcome from the environment.  The other three (lines 52, 79 and
  100) write text of the program itself and are taken to succeed; they change no value
  that the functions return, and neither does the test of the \<open>done\<close> flag in line 99.
\<close>

type_synonym byte = "8 word"
type_synonym bytes = "byte list"

subsection \<open>Exceptions\<close>

text \<open>
  The exception classes that the two handlers of \<open>perform_ocr\<close> and the handler of
  \<open>draw_bounding_boxes\<close> can see.  \<open>TransportError\<close> stands for the connection, timeout and
  read errors of httpx and \<open>HTTPStatusError\<close> for the error of \<open>raise_for_status\<close>; both are
  subclasses of \<open>httpx.HTTPError\<close>.  \<open>OtherError\<close> is any further subclass of \<open>Exception\<close>
  that a library raises (\<open>OSError\<close>, \<open>PIL.UnidentifiedImageError\<close>, \<open>RecursionError\<close>, ...).
\<close>

datatype py_exception =
    TransportError string
  | HTTPStatusError nat
  | JSONDecodeError string
  | UnicodeDecodeError
  | UnicodeEncodeError
  | AttributeError
  | TypeError
  | ValueError
  | OverflowError
  | ZeroDivisionError
  | OtherError string

text \<open>\<open>isinstance(e, httpx.HTTPError)\<close> and \<open>isinstance(e, json.JSONDecodeError)\<close>.\<close>

fun is_HTTPError :: "py_exception \<Rightarrow> bool" where
  "is_HTTPError (TransportError m) = True"
| "is_HTTPError (HTTPStatusError s) = True"
| "is_HTTPError e = False"

fun is_JSONDecodeError :: "py_exception \<Rightarrow> bool" where
  "is_JSONDecodeError (JSONDecodeError m) = True"
| "is_JSONDecodeError e = False"

subsection \<open>Values returned by \<open>json.loads\<close>\<close>

text \<open>
  A \<open>dict\<close> is an association list read with \<open>map_of\<close>.  A \<open>float\<close> is kept as the literal
  it was read from: the program never computes with it.
\<close>

datatype json =
    JNull
  | JBool bool
  | JInt int
  | JFloat string
  | JString string
  | JArray "json list"
  | JObject "(string \<times> json) list"

text \<open>\<open>d.get(key, default)\<close>: only a \<open>dict\<close> has the attribute \<open>get\<close>.\<close>

fun py_get :: "json \<Rightarrow> string \<Rightarrow> json \<Rightarrow> py_exception + json" where
  "py_get (JObject kvs) key dflt =
     Inr (case map_of kvs key of None \<Rightarrow> dflt | Some v \<Rightarrow> v)"
| "py_get d key dflt = Inl AttributeError"

text \<open>\<open>text += content\<close> for a \<open>str\<close> on the left: only a \<open>str\<close> can be appended.\<close>

fun str_iadd :: "string \<Rightarrow> json \<Rightarrow> py_exception + string" where
  "str_iadd t (JString s) = Inr (t @ s)"
| "str_iadd t v = Inl TypeError"

subsection \<open>\<open>base64.b64encode\<close>\<close>

definition b64_alphabet :: string where
  "b64_alphabet = ''ABCDEFGHIJKLMNOPQRSTUVWXYZabcdefghijklmnopqrstuvwxyz0123456789+/''"

definition b64_char :: "nat \<Rightarrow> char" where
  "b64_char n = b64_alphabet ! (n mod 64)"

fun b64encode :: "bytes \<Rightarrow> string" where
  "b64encode [] = []"
| "b64encode [a] =
     (let n = unat a * 65536
      in [b64_char (n div 262144), b64_char (n div 4096), CHR ''='', CHR ''=''])"
| "b64encode [a, b] =
     (let n = unat a * 65536 + unat b * 256
      in [b64_char (n div 262144), b64_char (n div 4096), b64_char (n div 64), CHR ''=''])"
| "b64encode (a # b # c # rest) =
     (let n = unat a * 65536 + unat b * 256 + unat c
      in [b64_char (n div 262144), b64_char (n div 4096), b64_char (n div 64), b64_char n]
         @ b64encode rest)"

subsection \<open>The upstream endpoint\<close>

text \<open>
  What \<open>client.stream("POST", url, json=payload)\<close> meets.  Either no response arrives
  (\<open>Unreachable\<close>: the connection fails or times out, with the message of the httpx error), or
  a response with a status code arrives whose body delivers some chunks and then either
  ends (\<open>None\<close>) or breaks with a read error or read timeout (\<open>Some message\<close>).
\<close>

datatype upstream =
    Unreachable string
  | Responded nat "bytes list" "string option"

record payload =
  model :: string
  prompt :: string
  images :: "string list"
  stream :: bool

definition OLLAMA_API_URL :: string where
  "OLLAMA_API_URL = ''http://localhost:11434/api/generate''"

definition MODEL_NAME :: string where
  "MODEL_NAME = ''deepseek-ocr''"

text \<open>\<open>response.raise_for_status()\<close>: any status outside 200..299 raises.\<close>

definition raise_for_status :: "nat \<Rightarrow> py_exception option" where
  "raise_for_status status =
     (if 200 \<le> status \<and> status \<le> 299 then None else Some (HTTPStatusError status))"

subsection \<open>\<open>int(s)\<close> and true division\<close>

definition is_digit :: "char \<Rightarrow> bool" where
  "is_digit c = (48 \<le> (of_char c :: nat) \<and> (of_char c :: nat) \<le> 57)"

text \<open>
  \<open>\s\<close> in a \<open>str\<close> pattern is the Unicode white space; below 256 that is
  9..13, 28..32, 133 and 160.
\<close>

definition is_space :: "char \<Rightarrow> bool" where
  "is_space c =
     (let n = (of_char c :: nat)
      in (9 \<le> n \<and> n \<le> 13) \<or> (28 \<le> n \<and> n \<le> 32) \<or> n = 133 \<or> n = 160)"

definition digit_value :: "char \<Rightarrow> nat" where
  "digit_value c = of_char c - 48"

definition decimal_value :: "string \<Rightarrow> nat" where
  "decimal_value s = foldl (\<lambda>acc c. 10 * acc + digit_value c) 0 s"

text \<open>
  \<open>int(s)\<close> for a group of the pattern, which is a non-empty string of decimal digits
  (lemma \<open>findall_groups_digits\<close>).  The interpreter refuses a string of more than
  \<open>sys.get_int_max_str_digits()\<close> digits with a \<open>ValueError\<close>, unless that limit is 0.
  The first branch is never taken for a group; \<open>int\<close> has further forms of input (signs,
  spaces, underscores) that no group has, and they are not modelled.
\<close>

definition py_int :: "nat \<Rightarrow> string \<Rightarrow> py_exception + int" where
  "py_int max_str_digits s =
     (if s = [] \<or> \<not> list_all is_digit s then Inl ValueError
      else if max_str_digits \<noteq> 0 \<and> max_str_digits < length s then Inl ValueError
      else Inr (int (decimal_value s)))"

text \<open>\<open>n.bit_length()\<close>.\<close>

fun bit_length :: "nat \<Rightarrow> nat" where
  "bit_length n = (if n = 0 then 0 else Suc (bit_length (n div 2)))"

declare bit_length.simps [simp del]

definition pow2 :: "int \<Rightarrow> rat" where
  "pow2 k = (if 0 \<le> k then 2 ^ nat k else 1 / 2 ^ nat (- k))"

text \<open>The integer \<open>e\<close> with \<open>2^e \<le> q < 2^(e+1)\<close>, for a positive \<open>q\<close>.\<close>

definition floor_log2 :: "rat \<Rightarrow> int" where
  "floor_log2 q =
     (let (a, b) = quotient_of q;
          d = int (bit_length (nat a)) - int (bit_length (nat b))
      in if pow2 d \<le> q then d else d - 1)"

definition round_half_even :: "rat \<Rightarrow> int" where
  "round_half_even q =
     (let f = \<lfloor>q\<rfloor>; r = q - of_int f
      in if r < 1 / 2 then f
         else if 1 / 2 < r then f + 1
         else if even f then f else f + 1)"

text \<open>
  The binary64 number nearest to a rational \<open>q \<ge> 0\<close>, ties to even: 53 significant bits,
  the unit in the last place never below \<open>2^-1074\<close>.  The result may be \<open>2^1024\<close>, which is
  beyond the largest float.
\<close>

definition binary64 :: "rat \<Rightarrow> rat" where
  "binary64 q =
     (if q = 0 then 0
      else let p = max (floor_log2 q - 52) (- 1074)
           in of_int (round_half_even (q / pow2 p)) * pow2 p)"

text \<open>
  \<open>a / b\<close> for two \<open>int\<close>s: the correctly rounded quotient, \<open>ZeroDivisionError\<close> for a
  zero divisor, \<open>OverflowError\<close> when the rounded quotient is beyond the floats.
\<close>

definition py_truediv :: "int \<Rightarrow> int \<Rightarrow> py_exception + rat" where
  "py_truediv a b =
     (if b = 0 then Inl ZeroDivisionError
      else let q = of_int a / of_int b;
               r = (if q < 0 then - binary64 (- q) else binary64 q)
           in if 2 ^ 1024 \<le> \<bar>r\<bar> then Inl OverflowError else Inr r)"

subsection \<open>\<open>re.findall\<close> for the coordinate pattern\<close>

text \<open>
  The pattern is \<^verbatim>\<open>\[\[(\d+),\s*(\d+),\s*(\d+),\s*(\d+)\]\]\<close>.  \<open>match_at s\<close> matches it at
  the start of \<open>s\<close> and returns the four groups and the rest of \<open>s\<close> behind the match.
  Every repetition is greedy; none can give back a character, since the character
  that must follow it is outside its class.
\<close>

type_synonym groups = "string \<times> string \<times> string \<times> string"

fun expect :: "char \<Rightarrow> string \<Rightarrow> string option" where
  "expect c [] = None"
| "expect c (x # xs) = (if x = c then Some xs else None)"

definition digits1 :: "string \<Rightarrow> (string \<times> string) option" where
  "digits1 s =
     (if takeWhile is_digit s = [] then None
      else Some (takeWhile is_digit s, dropWhile is_digit s))"

definition sep_digits :: "string \<Rightarrow> (string \<times> string) option" where
  "sep_digits s =
     (case expect (CHR '','') s of
        None \<Rightarrow> None
      | Some s' \<Rightarrow> digits1 (dropWhile is_space s'))"

definition match_at :: "string \<Rightarrow> (groups \<times> string) option" where
  "match_at s =
     (case expect (CHR ''['') s of None \<Rightarrow> None | Some s1 \<Rightarrow>
      case expect (CHR ''['') s1 of None \<Rightarrow> None | Some s2 \<Rightarrow>
      case digits1 s2 of None \<Rightarrow> None | Some (g1, s3) \<Rightarrow>
      case sep_digits s3 of None \<Rightarrow> None | Some (g2, s4) \<Rightarrow>
      case sep_digits s4 of None \<Rightarrow> None | Some (g3, s5) \<Rightarrow>
      case sep_digits s5 of None \<Rightarrow> None | Some (g4, s6) \<Rightarrow>
      case expect (CHR '']'') s6 of None \<Rightarrow> None | Some s7 \<Rightarrow>
      case expect (CHR '']'') s7 of None \<Rightarrow> None | Some rest \<Rightarrow>
      Some ((g1, g2, g3, g4), rest))"

lemma expect_length: "expect c s = Some r \<Longrightarrow> length r < length s"
  by (cases s) (auto split: if_splits)

lemma digits1_length: "digits1 s = Some (g, r) \<Longrightarrow> length r \<le> length s"
  by (auto simp: digits1_def length_dropWhile_le split: if_splits)

lemma sep_digits_length: "sep_digits s = Some (g, r) \<Longrightarrow> length r < length s"
proof -
  assume a: "sep_digits s = Some (g, r)"
  then obtain s' where s': "expect (CHR '','') s = Some s'"
    and d: "digits1 (dropWhile is_space s') = Some (g, r)"
    by (auto simp: sep_digits_def split: option.splits)
  have "length r \<le> length (dropWhile is_space s')"
    using d by (rule digits1_length)
  also have "\<dots> \<le> length s'"
    by (rule length_dropWhile_le)
  also have "\<dots> < length s"
    using s' by (rule expect_length)
  finally show ?thesis .
qed

lemma match_at_length: "match_at s = Some (g, r) \<Longrightarrow> length r < length s"
proof -
  assume "match_at s = Some (g, r)"
  then obtain s1 s2 s3 s4 s5 s6 s7 g1 g2 g3 g4 where
    "expect (CHR ''['') s = Some s1" "expect (CHR ''['') s1 = Some s2"
    "digits1 s2 = Some (g1, s3)" "sep_digits s3 = Some (g2, s4)"
    "sep_digits s4 = Some (g3, s5)" "sep_digits s5 = Some (g4, s6)"
    "expect (CHR '']'') s6 = Some s7" "expect (CHR '']'') s7 = Some r"
    unfolding match_at_def by (auto split: option.splits prod.splits)
  then have "length s1 < length s" "length s2 < length s1" "length s3 \<le> length s2"
    "length s4 < length s3" "length s5 < length s4" "length s6 < length s5"
    "length s7 < length s6" "length r < length s7"
    by (auto dest: expect_length digits1_length sep_digits_length)
  then show ?thesis by linarith
qed

text \<open>
  \<open>re.findall\<close> scans from left to right: where the pattern matches, the groups are
  collected and the scan goes on behind the match; elsewhere it moves on by one
  character.
\<close>

function findall :: "string \<Rightarrow> groups list" where
  "findall [] = []"
| "findall (c # cs) =
     (case match_at (c # cs) of
        Some (g, rest) \<Rightarrow> g # findall rest
      | None \<Rightarrow> findall cs)"
  by pat_completeness auto
termination
  by (relation "measure length") (auto dest: match_at_length)

subsection \<open>The libraries and the endpoint\<close>

text \<open>
  An image under annotation is the picture that \<open>Image.open\<close> returned together with the
  rectangles drawn on it so far, oldest first: the pixels of the image are a function
  of the two.
\<close>

record rectangle =
  xy :: "rat list"
  outline :: string
  width :: int

record 'p image =
  picture :: 'p
  drawn :: "rectangle list"

record response =
  text_key :: string
  processed_image :: "string option"
  done_key :: bool

record http_exception =
  status_code :: nat
  detail :: string

text \<open>
  The program leaves decoding, imaging and the network to libraries, whose code is not
  part of it.  They are parameters of the model; every theorem holds for all of them.
  \<^item> \<open>post_stream url payload\<close>: what the streamed POST request meets;
  \<^item> \<open>bytes_decode\<close>: \<open>chunk.decode('utf-8')\<close>; \<open>json_loads\<close>: \<open>json.loads\<close>;
  \<^item> \<open>print_content\<close>: \<open>print(content, end="", flush=True)\<close>, with the exception it
    raises, if any;
  \<^item> \<open>exc_str\<close>: \<open>str(e)\<close>; \<open>int_max_str_digits\<close>: the limit of \<open>int(s)\<close>;
  \<^item> \<open>Image_open\<close>, \<open>ImageDraw_Draw\<close>, \<open>Image_size\<close>, \<open>Image_save\<close>: the Pillow calls of
    these names; \<open>ImageDraw_Draw\<close> and \<open>draw_rectangle\<close> return the exception they raise,
    if any, and \<open>draw_rectangle\<close> draws nothing when it raises.
\<close>

record 'p env =
  post_stream :: "string \<Rightarrow> payload \<Rightarrow> upstream"
  bytes_decode :: "bytes \<Rightarrow> py_exception + string"
  json_loads :: "string \<Rightarrow> py_exception + json"
  print_content :: "json \<Rightarrow> py_exception option"
  exc_str :: "py_exception \<Rightarrow> string"
  int_max_str_digits :: nat
  Image_open :: "bytes \<Rightarrow> py_exception + 'p"
  ImageDraw_Draw :: "'p \<Rightarrow> py_exception option"
  Image_size :: "'p \<Rightarrow> nat \<times> nat"
  draw_rectangle :: "'p image \<Rightarrow> rectangle \<Rightarrow> py_exception option"
  Image_save :: "'p image \<Rightarrow> string \<Rightarrow> py_exception + bytes"

subsection \<open>\<open>draw_bounding_boxes\<close>\<close>

text \<open>
  Lines 37 to 42: the four groups become \<open>int\<close>s, then each is scaled from the
  0..1000 space to the image.
\<close>

definition scale_match ::
  "nat \<Rightarrow> nat \<Rightarrow> nat \<Rightarrow> groups \<Rightarrow> py_exception + rat list" where
  "scale_match max_digits w h m =
     (case m of (g1, g2, g3, g4) \<Rightarrow>
      case py_int max_digits g1 of Inl e \<Rightarrow> Inl e | Inr x1 \<Rightarrow>
      case py_int max_digits g2 of Inl e \<Rightarrow> Inl e | Inr y1 \<Rightarrow>
      case py_int max_digits g3 of Inl e \<Rightarrow> Inl e | Inr x2 \<Rightarrow>
      case py_int max_digits g4 of Inl e \<Rightarrow> Inl e | Inr y2 \<Rightarrow>
      case py_truediv (x1 * int w) 1000 of Inl e \<Rightarrow> Inl e | Inr left_edge \<Rightarrow>
      case py_truediv (y1 * int h) 1000 of Inl e \<Rightarrow> Inl e | Inr top_edge \<Rightarrow>
      case py_truediv (x2 * int w) 1000 of Inl e \<Rightarrow> Inl e | Inr right_edge \<Rightarrow>
      case py_truediv (y2 * int h) 1000 of Inl e \<Rightarrow> Inl e | Inr bottom_edge \<Rightarrow>
      Inr [left_edge, top_edge, right_edge, bottom_edge])"

definition green_box :: "rat list \<Rightarrow> rectangle" where
  "green_box box = \<lparr>xy = box, outline = ''#00ff00'', width = 3\<rparr>"

text \<open>The loop of lines 36 to 45.\<close>

fun draw_matches ::
  "'p env \<Rightarrow> nat \<Rightarrow> nat \<Rightarrow> 'p image \<Rightarrow> groups list \<Rightarrow> py_exception + 'p image" where
  "draw_matches E w h img [] = Inr img"
| "draw_matches E w h img (m # ms) =
     (case scale_match (int_max_str_digits E) w h m of
        Inl e \<Rightarrow> Inl e
      | Inr box \<Rightarrow>
          (case draw_rectangle E img (green_box box) of
             Some e \<Rightarrow> Inl e
           | None \<Rightarrow> draw_matches E w h (img\<lparr>drawn := drawn img @ [green_box box]\<rparr>) ms))"

text \<open>The body of the \<open>try\<close> statement, lines 28 to 50.\<close>

definition draw_bounding_boxes_try :: "'p env \<Rightarrow> bytes \<Rightarrow> string \<Rightarrow> py_exception + string" where
  "draw_bounding_boxes_try E image_bytes response_text =
     (case Image_open E image_bytes of Inl e \<Rightarrow> Inl e | Inr pic \<Rightarrow>
      case ImageDraw_Draw E pic of Some e \<Rightarrow> Inl e | None \<Rightarrow>
      case Image_size E pic of (w, h) \<Rightarrow>
      case draw_matches E w h \<lparr>picture = pic, drawn = []\<rparr> (findall response_text) of
        Inl e \<Rightarrow> Inl e
      | Inr img \<Rightarrow>
      case Image_save E img ''PNG'' of Inl e \<Rightarrow> Inl e | Inr buffered \<Rightarrow>
      Inr (b64encode buffered))"

text \<open>\<open>except Exception\<close> turns every exception into the result \<open>None\<close>.\<close>

definition draw_bounding_boxes :: "'p env \<Rightarrow> bytes \<Rightarrow> string \<Rightarrow> string option" where
  "draw_bounding_boxes E image_bytes response_text =
     (case draw_bounding_boxes_try E image_bytes response_text of
        Inl e \<Rightarrow> None
      | Inr s \<Rightarrow> Some s)"

subsection \<open>\<open>perform_ocr\<close>\<close>

text \<open>
  The body of the inner \<open>try\<close> statement, lines 90 to 100, for one chunk: the chunk is
  decoded, the content is read, printed and then appended.
\<close>

definition chunk_try :: "'p env \<Rightarrow> string \<Rightarrow> bytes \<Rightarrow> py_exception + string" where
  "chunk_try E text_response chunk =
     (case bytes_decode E chunk of Inl e \<Rightarrow> Inl e | Inr s \<Rightarrow>
      case json_loads E s of Inl e \<Rightarrow> Inl e | Inr chunk_data \<Rightarrow>
      case py_get chunk_data ''response'' (JString []) of Inl e \<Rightarrow> Inl e | Inr content \<Rightarrow>
      case print_content E content of Some e \<Rightarrow> Inl e | None \<Rightarrow>
      str_iadd text_response content)"

text \<open>
  One turn of the loop, lines 87 to 102: an empty chunk is passed over, a
  \<open>JSONDecodeError\<close> is caught and the loop continues, any other exception leaves the
  loop.
\<close>

definition on_chunk :: "'p env \<Rightarrow> string \<Rightarrow> bytes \<Rightarrow> py_exception + string" where
  "on_chunk E text_response chunk =
     (if chunk = [] then Inr text_response
      else case chunk_try E text_response chunk of
             Inl e \<Rightarrow> (if is_JSONDecodeError e then Inr text_response else Inl e)
           | Inr t \<Rightarrow> Inr t)"

fun chunk_loop :: "'p env \<Rightarrow> string \<Rightarrow> bytes list \<Rightarrow> py_exception + string" where
  "chunk_loop E text_response [] = Inr text_response"
| "chunk_loop E text_response (chunk # chunks) =
     (case on_chunk E text_response chunk of
        Inl e \<Rightarrow> Inl e
      | Inr t \<Rightarrow> chunk_loop E t chunks)"

text \<open>The body of the outer \<open>try\<close> statement, lines 66 to 111.\<close>

definition perform_ocr_try :: "'p env \<Rightarrow> bytes \<Rightarrow> string \<Rightarrow> py_exception + response" where
  "perform_ocr_try E image_data prompt_text =
     (let base64_image = b64encode image_data;
          request = \<lparr>model = MODEL_NAME, prompt = prompt_text,
                     images = [base64_image], stream = True\<rparr>
      in case post_stream E OLLAMA_API_URL request of
           Unreachable msg \<Rightarrow> Inl (TransportError msg)
         | Responded status chunks ending \<Rightarrow>
             (case raise_for_status status of Some e \<Rightarrow> Inl e | None \<Rightarrow>
              case chunk_loop E [] chunks of Inl e \<Rightarrow> Inl e | Inr text_response \<Rightarrow>
              case ending of Some msg \<Rightarrow> Inl (TransportError msg) | None \<Rightarrow>
              Inr \<lparr>text_key = text_response,
                   processed_image = draw_bounding_boxes E image_data text_response,
                   done_key = True\<rparr>))"

text \<open>The two handlers, lines 113 to 116.\<close>

definition perform_ocr :: "'p env \<Rightarrow> bytes \<Rightarrow> string \<Rightarrow> http_exception + response" where
  "perform_ocr E image_data prompt_text =
     (case perform_ocr_try E image_data prompt_text of
        Inl e \<Rightarrow>
          (if is_HTTPError e
           then Inl \<lparr>status_code = 500, detail = ''Ollama API Error: '' @ exc_str E e\<rparr>
           else Inl \<lparr>status_code = 500, detail = ''Internal Server Error: '' @ exc_str E e\<rparr>)
      | Inr r \<Rightarrow> Inr r)"

section \<open>Notions used in the statements\<close>

text \<open>The request that \<open>perform_ocr\<close> sends for an image and a prompt.\<close>

definition request_payload :: "bytes \<Rightarrow> string \<Rightarrow> payload" where
  "request_payload image_data prompt_text =
     \<lparr>model = MODEL_NAME, prompt = prompt_text,
      images = [b64encode image_data], stream = True\<rparr>"

text \<open>\<open>json.loads(chunk.decode('utf-8'))\<close>.\<close>

definition decode_chunk :: "'p env \<Rightarrow> bytes \<Rightarrow> py_exception + json" where
  "decode_chunk E chunk =
     (case bytes_decode E chunk of Inl e \<Rightarrow> Inl e | Inr s \<Rightarrow> json_loads E s)"

text \<open>
  A fragment is a JSON object whose \<open>response\<close> field, when present, is a string; its text
  delta is that string, or the empty string when the field is absent.  A chunk decodes as
  a fragment when it is not empty and both decoding steps succeed with a fragment.
\<close>

fun fragment_delta :: "json \<Rightarrow> string option" where
  "fragment_delta (JObject kvs) =
     (case map_of kvs ''response'' of
        None \<Rightarrow> Some []
      | Some (JString s) \<Rightarrow> Some s
      | Some v \<Rightarrow> None)"
| "fragment_delta v = None"

definition chunk_delta :: "'p env \<Rightarrow> bytes \<Rightarrow> string option" where
  "chunk_delta E chunk =
     (if chunk = [] then None
      else case decode_chunk E chunk of Inl e \<Rightarrow> None | Inr v \<Rightarrow> fragment_delta v)"

text \<open>The console accepts a text delta: printing it does not raise.\<close>

definition delta_printed :: "'p env \<Rightarrow> string \<Rightarrow> bool" where
  "delta_printed E d = (print_content E (JString d) = None)"

text \<open>The values that have the method \<open>get\<close>.\<close>

fun is_object :: "json \<Rightarrow> bool" where
  "is_object (JObject kvs) = True"
| "is_object v = False"

text \<open>
  The chunks that the loop passes over: the empty ones and those whose decoding raises a
  \<open>JSONDecodeError\<close>.  The chunks that it takes: the fragments whose delta the console
  accepts.  \<open>delta_or_empty\<close> is the text a chunk adds: its delta when it is a fragment,
  nothing otherwise.
\<close>

definition chunk_skipped :: "'p env \<Rightarrow> bytes \<Rightarrow> bool" where
  "chunk_skipped E chunk =
     (if chunk = [] then True
      else case decode_chunk E chunk of Inl e \<Rightarrow> is_JSONDecodeError e | Inr v \<Rightarrow> False)"

definition chunk_taken :: "'p env \<Rightarrow> bytes \<Rightarrow> bool" where
  "chunk_taken E chunk =
     (case chunk_delta E chunk of None \<Rightarrow> False | Some d \<Rightarrow> delta_printed E d)"

definition delta_or_empty :: "'p env \<Rightarrow> bytes \<Rightarrow> string" where
  "delta_or_empty E chunk = (case chunk_delta E chunk of None \<Rightarrow> [] | Some d \<Rightarrow> d)"

text \<open>
  The strings that the coordinate pattern matches as a whole, with their groups: two
  opening brackets, four non-empty digit strings separated by a comma and optional white
  space, two closing brackets.  \<open>occurs_at s k\<close>: the pattern matches in \<open>s\<close> at position
  \<open>k\<close>.  \<open>find_spans\<close> is \<open>findall\<close> with the positions of the matches, as \<open>re.finditer\<close>
  reports them.
\<close>

definition digit_string :: "string \<Rightarrow> bool" where
  "digit_string g = (g \<noteq> [] \<and> list_all is_digit g)"

definition pattern_match :: "string \<Rightarrow> groups \<Rightarrow> bool" where
  "pattern_match w g =
     (case g of (g1, g2, g3, g4) \<Rightarrow>
        digit_string g1 \<and> digit_string g2 \<and> digit_string g3 \<and> digit_string g4 \<and>
        (\<exists>s2 s3 s4. list_all is_space s2 \<and> list_all is_space s3 \<and> list_all is_space s4 \<and>
           w = ''[['' @ g1 @ '','' @ s2 @ g2 @ '','' @ s3 @ g3 @ '','' @ s4 @ g4 @ '']]''))"

definition occurs_at :: "string \<Rightarrow> nat \<Rightarrow> bool" where
  "occurs_at s k = (\<exists>w g. pattern_match w g \<and> take (length w) (drop k s) = w)"

function find_spans :: "nat \<Rightarrow> string \<Rightarrow> (nat \<times> nat \<times> groups) list" where
  "find_spans i [] = []"
| "find_spans i (c # cs) =
     (case match_at (c # cs) of
        Some (g, rest) \<Rightarrow>
          (i, i + (length (c # cs) - length rest), g)
            # find_spans (i + (length (c # cs) - length rest)) rest
      | None \<Rightarrow> find_spans (Suc i) cs)"
  by pat_completeness auto
termination
  by (relation "measure (\<lambda>(i, s). length s)") (auto dest: match_at_length)

text \<open>The drawing primitive accepts a list of rectangles, one after the other.\<close>

fun accepted :: "'p env \<Rightarrow> 'p image \<Rightarrow> rectangle list \<Rightarrow> bool" where
  "accepted E img [] = True"
| "accepted E img (r # rs) =
     (draw_rectangle E img r = None \<and> accepted E (img\<lparr>drawn := drawn img @ [r]\<rparr>) rs)"

section \<open>An environment for examples\<close>

text \<open>
  A small environment on which the model can be run.  Chunks are decoded as ASCII, the
  JSON reader knows a few documents, and the console encodes in ASCII, so that printing
  a string with a character above 127 raises a \<open>UnicodeEncodeError\<close>.  An image file is
  five bytes: width and height, two bytes each, and the pixel mode, 0 for RGB and 1 for
  CMYK.  The drawing primitive refuses a rectangle whose second corner is left of or
  above the first with a \<open>ValueError\<close>, as Pillow does since version 9.5, and \<open>save\<close>
  refuses to write a CMYK picture as PNG, as Pillow does.
\<close>

record toy_picture =
  toy_width :: nat
  toy_height :: nat
  toy_mode :: string

definition encode_ascii :: "string \<Rightarrow> bytes" where
  "encode_ascii s = map (\<lambda>c. of_nat (of_char c)) s"

definition example_decode :: "bytes \<Rightarrow> py_exception + string" where
  "example_decode b =
     (if list_all (\<lambda>x. x < 128) b then Inr (map (\<lambda>x. char_of (unat x)) b)
      else Inl UnicodeDecodeError)"

definition cafe_document :: string where
  \<open>cafe_document = ''{"response":"caf'' @ [CHR 0x5C] @ ''u00e9"}''\<close>

definition cafe_text :: string where
  "cafe_text = ''caf'' @ [CHR 0xE9]"

definition example_loads :: "string \<Rightarrow> py_exception + json" where
  \<open>example_loads s =
     (if s = ''{"response":"Hello ","done":false}''
      then Inr (JObject [(''response'', JString ''Hello ''), (''done'', JBool False)])
      else if s = ''{"response":"[[0,0,500,1000]] World","done":true}''
      then Inr (JObject [(''response'', JString ''[[0,0,500,1000]] World''),
                         (''done'', JBool True)])
      else if s = ''{"done":true}'' then Inr (JObject [(''done'', JBool True)])
      else if s = cafe_document then Inr (JObject [(''response'', JString cafe_text)])
      else if s = ''[1]'' then Inr (JArray [JInt 1])
      else Inl (JSONDecodeError ''Expecting value''))\<close>

definition example_print :: "json \<Rightarrow> py_exception option" where
  "example_print v =
     (case v of
        JString s \<Rightarrow>
          (if list_all (\<lambda>c. (of_char c :: nat) < 128) s then None
           else Some UnicodeEncodeError)
      | _ \<Rightarrow> None)"

definition example_str :: "py_exception \<Rightarrow> string" where
  "example_str e =
     (case e of
        TransportError m \<Rightarrow> m
      | HTTPStatusError s \<Rightarrow> ''status error''
      | JSONDecodeError m \<Rightarrow> m
      | UnicodeDecodeError \<Rightarrow> ''invalid start byte''
      | UnicodeEncodeError \<Rightarrow> ''ordinal not in range(128)''
      | AttributeError \<Rightarrow> ''object has no attribute get''
      | TypeError \<Rightarrow> ''can only concatenate str to str''
      | ValueError \<Rightarrow> ''invalid value''
      | OverflowError \<Rightarrow> ''integer division result too large for a float''
      | ZeroDivisionError \<Rightarrow> ''division by zero''
      | OtherError m \<Rightarrow> m)"

definition example_open :: "bytes \<Rightarrow> py_exception + toy_picture" where
  "example_open b =
     (case b of
        [wh, wl, hh, hl, m] \<Rightarrow>
          (if m = 0 \<or> m = 1
           then Inr \<lparr>toy_width = 256 * unat wh + unat wl,
                     toy_height = 256 * unat hh + unat hl,
                     toy_mode = (if m = 0 then ''RGB'' else ''CMYK'')\<rparr>
           else Inl (OtherError ''cannot identify image file''))
      | _ \<Rightarrow> Inl (OtherError ''cannot identify image file''))"

definition example_rectangle :: "toy_picture image \<Rightarrow> rectangle \<Rightarrow> py_exception option" where
  "example_rectangle img r =
     (case xy r of
        [x0, y0, x1, y1] \<Rightarrow> (if x1 < x0 \<or> y1 < y0 then Some ValueError else None)
      | _ \<Rightarrow> Some TypeError)"

definition example_save :: "toy_picture image \<Rightarrow> string \<Rightarrow> py_exception + bytes" where
  "example_save img fmt =
     (if fmt \<noteq> ''PNG'' then Inl (OtherError ''unknown file extension'')
      else if toy_mode (picture img) = ''CMYK''
      then Inl (OtherError ''cannot write mode CMYK as PNG'')
      else Inr [0x89, 0x50, 0x4E, 0x47, of_nat (length (drawn img))])"

definition example_env :: "upstream \<Rightarrow> toy_picture env" where
  "example_env up =
     \<lparr>post_stream = (\<lambda>url request. up),
      bytes_decode = example_decode,
      json_loads = example_loads,
      print_content = example_print,
      exc_str = example_str,
      int_max_str_digits = 4300,
      Image_open = example_open,
      ImageDraw_Draw = (\<lambda>pic. None),
      Image_size = (\<lambda>pic. (toy_width pic, toy_height pic)),
      draw_rectangle = example_rectangle,
      Image_save = example_save\<rparr>"

definition hello_chunk :: bytes where
  \<open>hello_chunk = encode_ascii ''{"response":"Hello ","done":false}''\<close>

definition world_chunk :: bytes where
  \<open>world_chunk = encode_ascii ''{"response":"[[0,0,500,1000]] World","done":true}''\<close>

definition done_chunk :: bytes where
  \<open>done_chunk = encode_ascii ''{"done":true}''\<close>

definition array_chunk :: bytes where
  "array_chunk = encode_ascii ''[1]''"


definition image_500 :: bytes where
  "image_500 = [1, 244, 1, 244, 0]"

definition cmyk_500 :: bytes where
  "cmyk_500 = [1, 244, 1, 244, 1]"

section \<open>The pattern matcher\<close>

lemma expect_iff: "expect c s = Some r \<longleftrightarrow> s = c # r"
  by (cases s) auto

lemma span_append:
  "list_all P xs \<Longrightarrow> ys = [] \<or> \<not> P (hd ys) \<Longrightarrow>
     takeWhile P (xs @ ys) = xs \<and> dropWhile P (xs @ ys) = ys"
proof (induction xs)
  case Nil
  then show ?case by (cases ys) auto
next
  case (Cons x xs)
  then show ?case by simp
qed

lemma span_split:
  "list_all P (takeWhile P s) \<and> (dropWhile P s = [] \<or> \<not> P (hd (dropWhile P s)))"
  by (induction s) auto

lemma digits1_iff:
  "digits1 s = Some (g, r) \<longleftrightarrow>
     s = g @ r \<and> digit_string g \<and> (r = [] \<or> \<not> is_digit (hd r))"
proof
  assume "digits1 s = Some (g, r)"
  then have g: "g = takeWhile is_digit s" and r: "r = dropWhile is_digit s" and "g \<noteq> []"
    by (auto simp: digits1_def split: if_splits)
  then show "s = g @ r \<and> digit_string g \<and> (r = [] \<or> \<not> is_digit (hd r))"
    using span_split [of is_digit s] by (simp add: digit_string_def)
next
  assume "s = g @ r \<and> digit_string g \<and> (r = [] \<or> \<not> is_digit (hd r))"
  then show "digits1 s = Some (g, r)"
    using span_append [of is_digit g r] by (simp add: digits1_def digit_string_def)
qed

lemma digit_not_space: "is_digit c \<Longrightarrow> \<not> is_space c"
  by (auto simp: is_digit_def is_space_def Let_def)

lemma digit_string_hd: "digit_string g \<Longrightarrow> \<not> is_space (hd (g @ r)) \<and> g @ r \<noteq> []"
  by (cases g) (auto simp: digit_string_def digit_not_space)

lemma sep_digits_iff:
  "sep_digits s = Some (g, r) \<longleftrightarrow>
     (\<exists>ws. s = CHR '','' # ws @ g @ r \<and> list_all is_space ws \<and> digit_string g \<and>
           (r = [] \<or> \<not> is_digit (hd r)))"
proof
  assume "sep_digits s = Some (g, r)"
  then obtain s' where s: "s = CHR '','' # s'"
    and d: "digits1 (dropWhile is_space s') = Some (g, r)"
    by (auto simp: sep_digits_def expect_iff split: option.splits)
  have "s' = takeWhile is_space s' @ dropWhile is_space s'" by simp
  moreover have "dropWhile is_space s' = g @ r" "digit_string g" "r = [] \<or> \<not> is_digit (hd r)"
    using d by (simp_all add: digits1_iff)
  ultimately have "s = CHR '','' # takeWhile is_space s' @ g @ r \<and>
      list_all is_space (takeWhile is_space s') \<and> digit_string g \<and> (r = [] \<or> \<not> is_digit (hd r))"
    using s span_split [of is_space s'] by simp
  then show "\<exists>ws. s = CHR '','' # ws @ g @ r \<and> list_all is_space ws \<and> digit_string g \<and>
           (r = [] \<or> \<not> is_digit (hd r))"
    by blast
next
  assume "\<exists>ws. s = CHR '','' # ws @ g @ r \<and> list_all is_space ws \<and> digit_string g \<and>
           (r = [] \<or> \<not> is_digit (hd r))"
  then obtain ws where s: "s = CHR '','' # ws @ g @ r" and ws: "list_all is_space ws"
    and g: "digit_string g" and r: "r = [] \<or> \<not> is_digit (hd r)"
    by blast
  have "dropWhile is_space (ws @ g @ r) = g @ r"
    using span_append [of is_space ws "g @ r"] ws digit_string_hd [OF g, of r] by simp
  then show "sep_digits s = Some (g, r)"
    using s g r by (simp add: sep_digits_def digits1_iff)
qed

lemma not_digit_sep: "\<not> is_digit (CHR '','')" "\<not> is_digit (CHR '']'')"
  by (simp_all add: is_digit_def)

lemma match_at_sound:
  assumes "match_at s = Some (g, r)"
  shows "\<exists>w. s = w @ r \<and> pattern_match w g"
proof -
  from assms obtain s1 s2 s3 s4 s5 s6 s7 g1 g2 g3 g4 where
    e1: "expect (CHR ''['') s = Some s1" and e2: "expect (CHR ''['') s1 = Some s2" and
    d1: "digits1 s2 = Some (g1, s3)" and d2: "sep_digits s3 = Some (g2, s4)" and
    d3: "sep_digits s4 = Some (g3, s5)" and d4: "sep_digits s5 = Some (g4, s6)" and
    e3: "expect (CHR '']'') s6 = Some s7" and e4: "expect (CHR '']'') s7 = Some r" and
    g: "g = (g1, g2, g3, g4)"
    unfolding match_at_def by (auto split: option.splits prod.splits)
  from d2 obtain w2 where w2: "s3 = CHR '','' # w2 @ g2 @ s4" "list_all is_space w2" "digit_string g2"
    by (auto simp: sep_digits_iff)
  from d3 obtain w3 where w3: "s4 = CHR '','' # w3 @ g3 @ s5" "list_all is_space w3" "digit_string g3"
    by (auto simp: sep_digits_iff)
  from d4 obtain w4 where w4: "s5 = CHR '','' # w4 @ g4 @ s6" "list_all is_space w4" "digit_string g4"
    by (auto simp: sep_digits_iff)
  have g1: "s2 = g1 @ s3" "digit_string g1"
    using d1 by (simp_all add: digits1_iff)
  have "s = (''[['' @ g1 @ '','' @ w2 @ g2 @ '','' @ w3 @ g3 @ '','' @ w4 @ g4 @ '']]'') @ r"
    using e1 e2 e3 e4 g1 w2 w3 w4 by (simp add: expect_iff)
  moreover have "pattern_match (''[['' @ g1 @ '','' @ w2 @ g2 @ '','' @ w3 @ g3 @ '','' @ w4 @ g4 @ '']]'') g"
    unfolding pattern_match_def g using g1 w2 w3 w4 by auto
  ultimately show ?thesis by blast
qed

lemma match_at_complete:
  assumes "pattern_match w g"
  shows "match_at (w @ r) = Some (g, r)"
proof -
  from assms obtain g1 g2 g3 g4 w2 w3 w4 where g: "g = (g1, g2, g3, g4)"
    and ds: "digit_string g1" "digit_string g2" "digit_string g3" "digit_string g4"
    and ws: "list_all is_space w2" "list_all is_space w3" "list_all is_space w4"
    and w: "w = ''[['' @ g1 @ '','' @ w2 @ g2 @ '','' @ w3 @ g3 @ '','' @ w4 @ g4 @ '']]''"
    unfolding pattern_match_def by (cases g) auto
  let ?r4 = "CHR '']'' # CHR '']'' # r"
  let ?r3 = "CHR '','' # w4 @ g4 @ ?r4"
  let ?r2 = "CHR '','' # w3 @ g3 @ ?r3"
  let ?r1 = "CHR '','' # w2 @ g2 @ ?r2"
  have 4: "sep_digits ?r3 = Some (g4, ?r4)"
    using ds ws by (auto simp: sep_digits_iff not_digit_sep)
  have 3: "sep_digits ?r2 = Some (g3, ?r3)"
    using ds ws by (auto simp: sep_digits_iff not_digit_sep)
  have 2: "sep_digits ?r1 = Some (g2, ?r2)"
    using ds ws by (auto simp: sep_digits_iff not_digit_sep)
  have 1: "digits1 (g1 @ ?r1) = Some (g1, ?r1)"
    using ds by (auto simp: digits1_iff not_digit_sep)
  have "w @ r = CHR ''['' # CHR ''['' # g1 @ ?r1"
    by (simp add: w)
  then show ?thesis
    unfolding match_at_def g by (simp add: 1 2 3 4)
qed

lemma match_at_iff:
  "match_at s = Some (g, r) \<longleftrightarrow> (\<exists>w. s = w @ r \<and> pattern_match w g)"
  using match_at_sound match_at_complete by blast


lemma pattern_match_nonempty: "pattern_match w g \<Longrightarrow> w \<noteq> []"
  by (cases g) (auto simp: pattern_match_def)

lemma match_at_split:
  assumes "match_at s = Some (g, rest)"
  obtains w where "s = w @ rest" "pattern_match w g" "length s - length rest = length w" "w \<noteq> []"
proof -
  from assms obtain w where w: "s = w @ rest" "pattern_match w g"
    by (auto simp: match_at_iff)
  then show ?thesis
    using that [of w] pattern_match_nonempty [of w g] by simp
qed

lemma findall_spans: "map (\<lambda>p. snd (snd p)) (find_spans i s) = findall s"
  by (induction i s rule: find_spans.induct) (auto split: option.splits)

lemma spans_are_matches:
  "(a, b, g) \<in> set (find_spans i s) \<Longrightarrow>
     i \<le> a \<and> a < b \<and> b \<le> i + length s \<and> pattern_match (take (b - a) (drop (a - i) s)) g"
proof (induction i s rule: find_spans.induct)
  case (1 i)
  then show ?case by simp
next
  case (2 i c cs)
  show ?case
  proof (cases "match_at (c # cs)")
    case None
    with "2.prems" have "(a, b, g) \<in> set (find_spans (Suc i) cs)" by simp
    with "2.IH"(1) None have "Suc i \<le> a \<and> a < b \<and> b \<le> Suc i + length cs \<and>
        pattern_match (take (b - a) (drop (a - Suc i) cs)) g" by simp
    moreover from this have "a - i = Suc (a - Suc i)" by linarith
    ultimately show ?thesis by simp
  next
    case (Some p)
    obtain g0 rest where p: "p = (g0, rest)" by (cases p)
    from Some p obtain w where w: "c # cs = w @ rest" "pattern_match w g0"
      "length (c # cs) - length rest = length w" "w \<noteq> []"
      by (auto elim: match_at_split)
    from "2.prems" Some p w(3) consider
      (first) "(a, b, g) = (i, i + length w, g0)" |
      (later) "(a, b, g) \<in> set (find_spans (i + length w) rest)"
      by auto
    then show ?thesis
    proof cases
      case first
      then show ?thesis using w by auto
    next
      case later
      with "2.IH"(2) [OF Some p [symmetric]] w(3)
      have ih: "i + length w \<le> a \<and> a < b \<and> b \<le> i + length w + length rest \<and>
          pattern_match (take (b - a) (drop (a - (i + length w)) rest)) g"
        by simp
      then have "length w \<le> a - i" "a - i - length w = a - (i + length w)"
        by linarith+
      then have "drop (a - i) (w @ rest) = drop (a - (i + length w)) rest"
        by simp
      moreover have "Suc (length cs) = length w + length rest"
        using w(1) by (metis length_Cons length_append)
      ultimately show ?thesis
        using ih by (simp add: w(1))
    qed
  qed
qed


lemma spans_ordered: "sorted_wrt (\<lambda>x y. fst (snd x) \<le> fst y) (find_spans i s)"
proof (induction i s rule: find_spans.induct)
  case (1 i)
  then show ?case by simp
next
  case (2 i c cs)
  show ?case
  proof (cases "match_at (c # cs)")
    case None
    with "2.IH"(1) show ?thesis by simp
  next
    case (Some p)
    obtain g0 rest where p: "p = (g0, rest)" by (cases p)
    have "\<forall>y \<in> set (find_spans (i + (length (c # cs) - length rest)) rest).
        i + (length (c # cs) - length rest) \<le> fst y"
      using spans_are_matches by fastforce
    with "2.IH"(2) [OF Some p [symmetric]] Some p show ?thesis
      by simp
  qed
qed

lemma occurs_at_0:
  "occurs_at s 0 \<longleftrightarrow> (\<exists>g rest. match_at s = Some (g, rest))"
proof
  assume "occurs_at s 0"
  then obtain w g where "pattern_match w g" "take (length w) s = w"
    by (auto simp: occurs_at_def)
  then have "match_at (w @ drop (length w) s) = Some (g, drop (length w) s)" "w @ drop (length w) s = s"
    by (simp add: match_at_complete, metis append_take_drop_id)
  then show "\<exists>g rest. match_at s = Some (g, rest)" by metis
next
  assume "\<exists>g rest. match_at s = Some (g, rest)"
  then obtain g rest w where "s = w @ rest" "pattern_match w g"
    by (auto simp: match_at_iff)
  then have "pattern_match w g \<and> take (length w) (drop 0 s) = w"
    by simp
  then show "occurs_at s 0"
    unfolding occurs_at_def by blast
qed

lemma spans_leftmost:
  "k < length s \<Longrightarrow> occurs_at s k \<Longrightarrow>
     \<exists>(a, b, g) \<in> set (find_spans i s). a \<le> i + k \<and> i + k < b"
proof (induction i s arbitrary: k rule: find_spans.induct)
  case (1 i)
  then show ?case by simp
next
  case (2 i c cs)
  show ?case
  proof (cases "match_at (c # cs)")
    case None
    with "2.prems"(2) obtain k' where k: "k = Suc k'"
      by (cases k) (auto simp: occurs_at_0)
    with "2.prems" have "k' < length cs" "occurs_at cs k'"
      by (auto simp: occurs_at_def)
    from "2.IH"(1) [OF None this] show ?thesis
      using None k by auto
  next
    case (Some p)
    obtain g0 rest where p: "p = (g0, rest)" by (cases p)
    from Some p obtain w where w: "c # cs = w @ rest" "pattern_match w g0"
      "length (c # cs) - length rest = length w" "w \<noteq> []"
      by (auto elim: match_at_split)
    show ?thesis
    proof (cases "k < length w")
      case True
      then show ?thesis using Some p w(3) by auto
    next
      case False
      then have "drop k (c # cs) = drop (k - length w) rest"
        unfolding w(1) by simp
      with "2.prems" False w(1) have "k - length w < length rest" "occurs_at rest (k - length w)"
        by (auto simp: occurs_at_def)
      from "2.IH"(2) [OF Some p [symmetric] this] w(3) False show ?thesis
        using Some p by auto
    qed
  qed
qed


section \<open>The chunk loop\<close>

lemma chunk_try_decode:
  "chunk_try E t c =
     (case decode_chunk E c of
        Inl e \<Rightarrow> Inl e
      | Inr v \<Rightarrow> (case py_get v ''response'' (JString []) of
                   Inl e \<Rightarrow> Inl e
                 | Inr content \<Rightarrow>
                     (case print_content E content of
                        Some e \<Rightarrow> Inl e
                      | None \<Rightarrow> str_iadd t content)))"
  by (simp add: chunk_try_def decode_chunk_def split: sum.splits)

lemma fragment_delta_get:
  "fragment_delta v = Some d \<Longrightarrow> py_get v ''response'' (JString []) = Inr (JString d)"
  by (cases v) (auto split: option.splits json.splits)

lemma chunk_try_fragment:
  assumes "decode_chunk E c = Inr v" and "fragment_delta v = Some d"
  shows "chunk_try E t c =
     (case print_content E (JString d) of Some e \<Rightarrow> Inl e | None \<Rightarrow> Inr (t @ d))"
  by (simp add: chunk_try_decode assms(1) fragment_delta_get [OF assms(2)] split: option.splits)

lemma on_chunk_fragment:
  assumes "chunk_delta E c = Some d" and "delta_printed E d"
  shows "on_chunk E t c = Inr (t @ d)"
proof -
  from assms(1) obtain v where c: "c \<noteq> []" and v: "decode_chunk E c = Inr v"
    and d: "fragment_delta v = Some d"
    by (auto simp: chunk_delta_def split: if_splits sum.splits)
  have "chunk_try E t c = Inr (t @ d)"
    using assms(2) by (simp add: chunk_try_fragment [OF v d] delta_printed_def)
  then show ?thesis
    using c by (simp add: on_chunk_def)
qed



lemma chunk_loop_append:
  "chunk_loop E t (xs @ ys) =
     (case chunk_loop E t xs of Inl e \<Rightarrow> Inl e | Inr t' \<Rightarrow> chunk_loop E t' ys)"
  by (induction xs arbitrary: t) (auto split: sum.splits)

lemma perform_ocr_try_responded:
  "post_stream E OLLAMA_API_URL (request_payload image_data p) = Responded status chunks ending \<Longrightarrow>
   perform_ocr_try E image_data p =
     (case raise_for_status status of Some e \<Rightarrow> Inl e | None \<Rightarrow>
      case chunk_loop E [] chunks of Inl e \<Rightarrow> Inl e | Inr text_response \<Rightarrow>
      case ending of Some msg \<Rightarrow> Inl (TransportError msg) | None \<Rightarrow>
      Inr \<lparr>text_key = text_response,
           processed_image = draw_bounding_boxes E image_data text_response,
           done_key = True\<rparr>)"
  by (simp add: perform_ocr_try_def request_payload_def Let_def)

lemma perform_ocr_try_unreachable:
  "post_stream E OLLAMA_API_URL (request_payload image_data p) = Unreachable msg \<Longrightarrow>
   perform_ocr_try E image_data p = Inl (TransportError msg)"
  by (simp add: perform_ocr_try_def request_payload_def Let_def)

lemma on_chunk_skipped: "chunk_skipped E c \<Longrightarrow> on_chunk E t c = Inr t"
  by (auto simp: chunk_skipped_def on_chunk_def chunk_try_decode split: if_splits sum.splits)

lemma chunk_skipped_delta: "chunk_skipped E c \<Longrightarrow> chunk_delta E c = None"
  by (auto simp: chunk_skipped_def chunk_delta_def split: if_splits sum.splits)

lemma on_chunk_raises:
  "c \<noteq> [] \<Longrightarrow> chunk_try E t c = Inl e \<Longrightarrow>
     on_chunk E t c = (if is_JSONDecodeError e then Inr t else Inl e)"
  by (simp add: on_chunk_def)

lemma chunk_try_not_object:
  "decode_chunk E c = Inr v \<Longrightarrow> \<not> is_object v \<Longrightarrow> chunk_try E t c = Inl AttributeError"
  by (cases v) (simp_all add: chunk_try_decode)

lemma draw_try_open_fails:
  "Image_open E b = Inl e \<Longrightarrow> draw_bounding_boxes_try E b t = Inl e"
  by (simp add: draw_bounding_boxes_try_def)

subsection \<open>The example environment\<close>

lemma example_env_sel [simp]:
  "post_stream (example_env up) = (\<lambda>url request. up)"
  "bytes_decode (example_env up) = example_decode"
  "json_loads (example_env up) = example_loads"
  "print_content (example_env up) = example_print"
  "exc_str (example_env up) = example_str"
  "int_max_str_digits (example_env up) = 4300"
  "Image_open (example_env up) = example_open"
  "ImageDraw_Draw (example_env up) = (\<lambda>pic. None)"
  "Image_size (example_env up) = (\<lambda>pic. (toy_width pic, toy_height pic))"
  "draw_rectangle (example_env up) = example_rectangle"
  "Image_save (example_env up) = example_save"
  by (simp_all add: example_env_def)

lemma example_deltas:
  "chunk_delta (example_env up) hello_chunk = Some ''Hello ''"
  "chunk_delta (example_env up) world_chunk = Some ''[[0,0,500,1000]] World''"
  "chunk_delta (example_env up) done_chunk = Some []"
  by code_simp+


lemma example_printed:
  "delta_printed (example_env up) ''Hello ''"
  "delta_printed (example_env up) ''[[0,0,500,1000]] World''"
  "delta_printed (example_env up) []"
  by (simp_all add: delta_printed_def example_print_def)

lemma example_decodes:
  "decode_chunk (example_env up) [0xFF] = Inl UnicodeDecodeError"
  "decode_chunk (example_env up) array_chunk = Inr (JArray [JInt 1])"
  "decode_chunk (example_env up) [0x7B] = Inl (JSONDecodeError ''Expecting value'')"
  by code_simp+

lemma example_nonempty:
  "hello_chunk \<noteq> []" "world_chunk \<noteq> []" "done_chunk \<noteq> []" "array_chunk \<noteq> []"
  by (simp_all add: hello_chunk_def world_chunk_def done_chunk_def array_chunk_def encode_ascii_def)

lemma chunk_try_decode_fails:
  "decode_chunk E c = Inl e \<Longrightarrow> chunk_try E t c = Inl e"
  by (simp add: chunk_try_decode)

subsection \<open>The claims about the stream\<close>




text \<open>
  Claim C1.  The claim fails on a chunk that is not valid UTF-8: \<open>chunk.decode\<close> raises a
  \<open>UnicodeDecodeError\<close>, which is not a \<open>JSONDecodeError\<close>, so the chunk is not passed over.
  The error leaves the loop, the fragments before and after the chunk are lost and the
  request fails.
\<close>

theorem invalid_utf8_chunk_fails_request:
  "perform_ocr (example_env (Responded 200 [hello_chunk, [0xFF], world_chunk] None))
       image_500 ''read'' =
     Inl \<lparr>status_code = 500, detail = ''Internal Server Error: invalid start byte''\<rparr>"
proof -
  let ?E = "example_env (Responded 200 [hello_chunk, [0xFF], world_chunk] None)"
  have "on_chunk ?E ''Hello '' [0xFF] = Inl UnicodeDecodeError"
    by (simp add: on_chunk_raises chunk_try_decode_fails example_decodes)
  then have "chunk_loop ?E [] [hello_chunk, [0xFF], world_chunk] = Inl UnicodeDecodeError"
    by (simp add: on_chunk_fragment example_deltas example_printed)
  then have "perform_ocr_try ?E image_500 ''read'' = Inl UnicodeDecodeError"
    by (simp add: perform_ocr_try_responded raise_for_status_def)
  then show ?thesis
    by (simp add: perform_ocr_def example_str_def)
qed

text \<open>
  What the loop does pass over: empty chunks and chunks whose decoding raises a
  \<open>JSONDecodeError\<close>.  When every chunk is one of these or a fragment whose delta the
  console accepts, the accumulated text is the concatenation of the fragments' deltas.
\<close>

theorem skipped_and_valid_chunks:
  assumes "list_all (\<lambda>c. chunk_skipped E c \<or> chunk_taken E c) chunks"
  shows "chunk_loop E t chunks = Inr (t @ concat (map (delta_or_empty E) chunks))"
  using assms
proof (induction chunks arbitrary: t)
  case Nil
  then show ?case by simp
next
  case (Cons c cs)
  then have rest: "list_all (\<lambda>c. chunk_skipped E c \<or> chunk_taken E c) cs"
    by simp
  from Cons.prems consider (skip) "chunk_skipped E c"
    | (frag) d where "chunk_delta E c = Some d" "delta_printed E d"
    by (auto simp: chunk_taken_def split: option.splits)
  then show ?case
  proof cases
    case skip
    then show ?thesis
      using Cons.IH [OF rest, of t]
      by (simp add: on_chunk_skipped delta_or_empty_def chunk_skipped_delta)
  next
    case frag
    then show ?thesis
      using Cons.IH [OF rest, of "t @ d"]
      by (simp add: on_chunk_fragment delta_or_empty_def)
  qed
qed

theorem skipped_and_valid_chunks_witness:
  "chunk_loop (example_env (Unreachable [])) [] [hello_chunk, [0x7B], [], world_chunk]
     = Inr (''Hello '' @ ''[[0,0,500,1000]] World'')"
proof -
  let ?E = "example_env (Unreachable [])"
  have "chunk_skipped ?E [0x7B]" "chunk_skipped ?E []"
    by (simp_all add: chunk_skipped_def example_decodes)
  then have "list_all (\<lambda>c. chunk_skipped ?E c \<or> chunk_taken ?E c)
      [hello_chunk, [0x7B], [], world_chunk]"
    by (simp add: chunk_taken_def example_deltas example_printed)
  from skipped_and_valid_chunks [OF this, of "[]"] show ?thesis
    by (simp add: delta_or_empty_def example_deltas chunk_skipped_delta
        \<open>chunk_skipped ?E [0x7B]\<close> \<open>chunk_skipped ?E []\<close>)
qed

text \<open>
  Claim C7.  When no response arrives (the connection fails or times out), when the
  response has a status outside 200..299, or when the body breaks with a read error or
  timeout after the chunks so far were accumulated, the request fails with status 500 and
  the detail \<open>Ollama API Error: ...\<close>; the result is the error alone, with no text.
\<close>

theorem upstream_unavailable:
  assumes "post_stream E OLLAMA_API_URL (request_payload image_data p) = up"
  shows "(up = Unreachable msg \<longrightarrow>
            perform_ocr E image_data p =
              Inl \<lparr>status_code = 500,
                   detail = ''Ollama API Error: '' @ exc_str E (TransportError msg)\<rparr>) \<and>
         (up = Responded status chunks ending \<and> (status < 200 \<or> 299 < status) \<longrightarrow>
            perform_ocr E image_data p =
              Inl \<lparr>status_code = 500,
                   detail = ''Ollama API Error: '' @ exc_str E (HTTPStatusError status)\<rparr>) \<and>
         (up = Responded status chunks (Some msg) \<and> 200 \<le> status \<and> status \<le> 299 \<and>
          chunk_loop E [] chunks = Inr t \<longrightarrow>
            perform_ocr E image_data p =
              Inl \<lparr>status_code = 500,
                   detail = ''Ollama API Error: '' @ exc_str E (TransportError msg)\<rparr>)"
proof (intro conjI impI)
  assume "up = Unreachable msg"
  with assms show "perform_ocr E image_data p =
      Inl \<lparr>status_code = 500, detail = ''Ollama API Error: '' @ exc_str E (TransportError msg)\<rparr>"
    by (simp add: perform_ocr_def perform_ocr_try_unreachable)
next
  assume "up = Responded status chunks ending \<and> (status < 200 \<or> 299 < status)"
  with assms have "perform_ocr_try E image_data p = Inl (HTTPStatusError status)"
    by (auto simp: perform_ocr_try_responded raise_for_status_def)
  then show "perform_ocr E image_data p =
      Inl \<lparr>status_code = 500, detail = ''Ollama API Error: '' @ exc_str E (HTTPStatusError status)\<rparr>"
    by (simp add: perform_ocr_def)
next
  assume "up = Responded status chunks (Some msg) \<and> 200 \<le> status \<and> status \<le> 299 \<and>
          chunk_loop E [] chunks = Inr t"
  with assms have "perform_ocr_try E image_data p = Inl (TransportError msg)"
    by (auto simp: perform_ocr_try_responded raise_for_status_def)
  then show "perform_ocr E image_data p =
      Inl \<lparr>status_code = 500, detail = ''Ollama API Error: '' @ exc_str E (TransportError msg)\<rparr>"
    by (simp add: perform_ocr_def)
qed

theorem upstream_unavailable_witness:
  "perform_ocr (example_env (Unreachable ''All connection attempts failed'')) image_500 ''read'' =
     Inl \<lparr>status_code = 500,
          detail = ''Ollama API Error: All connection attempts failed''\<rparr> \<and>
   perform_ocr (example_env (Responded 503 [hello_chunk] None)) image_500 ''read'' =
     Inl \<lparr>status_code = 500, detail = ''Ollama API Error: status error''\<rparr> \<and>
   perform_ocr (example_env (Responded 200 [hello_chunk] (Some ''timed out''))) image_500 ''read'' =
     Inl \<lparr>status_code = 500, detail = ''Ollama API Error: timed out''\<rparr>"
proof -
  have loop: "chunk_loop (example_env (Responded 200 [hello_chunk] (Some ''timed out''))) []
      [hello_chunk] = Inr ''Hello ''"
    by (simp add: on_chunk_fragment example_deltas example_printed)
  show ?thesis
    using
      upstream_unavailable [of "example_env (Unreachable ''All connection attempts failed'')"
        image_500 "''read''" "Unreachable ''All connection attempts failed''"
        "''All connection attempts failed''"]
      upstream_unavailable [of "example_env (Responded 503 [hello_chunk] None)"
        image_500 "''read''" "Responded 503 [hello_chunk] None" _ 503 "[hello_chunk]" None]
      upstream_unavailable [of "example_env (Responded 200 [hello_chunk] (Some ''timed out''))"
        image_500 "''read''" "Responded 200 [hello_chunk] (Some ''timed out'')"
        "''timed out''" 200 "[hello_chunk]" "Some ''timed out''" "''Hello ''"]
      loop
    by (simp add: example_str_def)
qed

text \<open>
  Claim C10.  A chunk that decodes to a JSON value other than an object is not passed
  over: \<open>chunk_data.get\<close> raises an \<open>AttributeError\<close>, which leaves the loop, and the request
  fails with status 500 and the detail \<open>Internal Server Error: ...\<close>; the text accumulated
  from the chunks before it is not returned.
\<close>

theorem non_object_chunk_fails_request:
  assumes "post_stream E OLLAMA_API_URL (request_payload image_data p)
             = Responded status (pre @ c # post) ending"
    and "200 \<le> status" and "status \<le> 299"
    and "chunk_loop E [] pre = Inr t"
    and "c \<noteq> []" and "decode_chunk E c = Inr v" and "\<not> is_object v"
  shows "chunk_loop E [] (pre @ c # post) = Inl AttributeError \<and>
         perform_ocr E image_data p =
           Inl \<lparr>status_code = 500,
                detail = ''Internal Server Error: '' @ exc_str E AttributeError\<rparr>"
proof -
  have "on_chunk E t c = Inl AttributeError"
    using assms(5) chunk_try_not_object [OF assms(6,7), of t]
    by (simp add: on_chunk_raises)
  then have loop: "chunk_loop E [] (pre @ c # post) = Inl AttributeError"
    by (simp add: chunk_loop_append assms(4))
  then have "perform_ocr_try E image_data p = Inl AttributeError"
    using assms(2,3) by (simp add: perform_ocr_try_responded [OF assms(1)] raise_for_status_def)
  then show ?thesis
    using loop by (simp add: perform_ocr_def)
qed

theorem non_object_chunk_fails_request_witness:
  "chunk_loop (example_env (Responded 200 ([hello_chunk] @ array_chunk # [world_chunk]) None))
       [] ([hello_chunk] @ array_chunk # [world_chunk]) = Inl AttributeError \<and>
   perform_ocr (example_env (Responded 200 ([hello_chunk] @ array_chunk # [world_chunk]) None))
       image_500 ''read'' =
     Inl \<lparr>status_code = 500,
          detail = ''Internal Server Error: object has no attribute get''\<rparr>"
proof -
  let ?E = "example_env (Responded 200 ([hello_chunk] @ array_chunk # [world_chunk]) None)"
  have "post_stream ?E OLLAMA_API_URL (request_payload image_500 ''read'')
      = Responded 200 ([hello_chunk] @ array_chunk # [world_chunk]) None"
    by simp
  moreover have "chunk_loop ?E [] [hello_chunk] = Inr ''Hello ''"
    by (simp add: on_chunk_fragment example_deltas example_printed)
  moreover have "\<not> is_object (JArray [JInt 1])"
    by simp
  ultimately show ?thesis
    using non_object_chunk_fails_request [of ?E image_500 "''read''" 200 "[hello_chunk]"
        array_chunk "[world_chunk]" None "''Hello ''" "JArray [JInt 1]"]
    by (simp add: example_nonempty example_decodes example_str_def)
qed

section \<open>True division\<close>

lemma pow2_powi: "pow2 k = 2 powi k"
  by (simp add: pow2_def power_int_def inverse_eq_divide power_one_over)

lemma pow2_pos: "0 < pow2 k"
  by (simp add: pow2_powi)

lemma pow2_diff: "pow2 (a - b) = pow2 a / pow2 b"
  by (simp add: pow2_powi power_int_diff)

lemma pow2_nat: "pow2 (int n) = 2 ^ n"
  by (simp add: pow2_def)

lemma bit_length_bounds: "0 < n \<Longrightarrow> 2 ^ (bit_length n - 1) \<le> n \<and> n < 2 ^ bit_length n"
proof (induction n rule: bit_length.induct)
  case (1 n)
  show ?case
  proof (cases "n div 2 = 0")
    case True
    with "1.prems" have "n = 1" by linarith
    then show ?thesis
      by (simp add: bit_length.simps [of "Suc 0"] bit_length.simps [of 0])
  next
    case False
    with "1.IH" "1.prems" have ih: "2 ^ (bit_length (n div 2) - 1) \<le> n div 2"
      "n div 2 < 2 ^ bit_length (n div 2)"
      by simp_all
    have pos: "0 < bit_length (n div 2)"
      using False by (simp add: bit_length.simps [of "n div 2"])
    have bl: "bit_length n = Suc (bit_length (n div 2))"
      using "1.prems" by (simp add: bit_length.simps [of n])
    have "2 ^ (bit_length n - 1) = 2 * 2 ^ (bit_length (n div 2) - 1)"
      using pos bl by (cases "bit_length (n div 2)") simp_all
    also have "\<dots> \<le> 2 * (n div 2)"
      using ih(1) by simp
    also have "\<dots> \<le> n" by simp
    finally have lower: "2 ^ (bit_length n - 1) \<le> n" .
    have "n < 2 * (n div 2) + 2" by linarith
    also have "\<dots> \<le> 2 * 2 ^ bit_length (n div 2)"
      using ih(2) by simp
    finally have "n < 2 ^ bit_length n"
      by (simp add: bl)
    with lower show ?thesis by simp
  qed
qed

lemma floor_log2_le:
  assumes "0 < q"
  shows "pow2 (floor_log2 q) \<le> q"
proof -
  obtain a b where ab: "quotient_of q = (a, b)" by (cases "quotient_of q")
  then have q: "q = of_int a / of_int b" and b: "0 < b"
    by (simp_all add: quotient_of_div quotient_of_denom_pos)
  with assms have a: "0 < a"
    by (simp add: zero_less_divide_iff)
  define la lb where "la = bit_length (nat a)" and "lb = bit_length (nat b)"
  have A: "2 ^ (la - 1) \<le> nat a" and B: "nat b < 2 ^ lb"
    using bit_length_bounds [of "nat a"] bit_length_bounds [of "nat b"] a b
    by (simp_all add: la_def lb_def)
  have la: "0 < la"
    using a by (simp add: la_def bit_length.simps [of "nat a"])
  have "pow2 (int la - int lb - 1) \<le> q"
  proof -
    have "pow2 (int la - int lb - 1) = pow2 (int (la - 1) - int lb)"
      using la by (simp add: of_nat_diff algebra_simps)
    also have "\<dots> = 2 ^ (la - 1) / 2 ^ lb"
      by (simp add: pow2_diff pow2_nat)
    also have "\<dots> \<le> of_int a / 2 ^ lb"
    proof -
      have "(2::rat) ^ (la - 1) = of_nat (2 ^ (la - 1))" by simp
      also have "\<dots> \<le> of_nat (nat a)" using A by (simp only: of_nat_le_iff)
      also have "\<dots> = of_int a" using a by simp
      finally show ?thesis by (simp add: divide_right_mono)
    qed
    also have "\<dots> \<le> of_int a / of_int b"
    proof -
      have "(of_int b :: rat) = of_nat (nat b)" using b by simp
      also have "\<dots> \<le> of_nat (2 ^ lb)" using B by (simp only: of_nat_le_iff less_imp_le)
      finally have "(of_int b :: rat) \<le> 2 ^ lb" by simp
      then show ?thesis
        using a b by (simp add: frac_le)
    qed
    finally show ?thesis by (simp add: q)
  qed
  then show ?thesis
    by (simp add: floor_log2_def ab Let_def la_def lb_def)
qed

lemma round_half_even_upper: "of_int (round_half_even q) \<le> q + 1 / 2"
proof -
  have f: "of_int \<lfloor>q\<rfloor> \<le> q" by linarith
  consider "q - of_int \<lfloor>q\<rfloor> < 1 / 2" | "1 / 2 < q - of_int \<lfloor>q\<rfloor>" | "q - of_int \<lfloor>q\<rfloor> = 1 / 2"
    by linarith
  then show ?thesis
  proof cases
    case 1
    then have "round_half_even q = \<lfloor>q\<rfloor>"
      by (simp add: round_half_even_def Let_def)
    with f show ?thesis by linarith
  next
    case 2
    then have "\<not> q - of_int \<lfloor>q\<rfloor> < 1 / 2" by simp
    with 2 have "round_half_even q = \<lfloor>q\<rfloor> + 1"
      by (simp add: round_half_even_def Let_def)
    with 2 show ?thesis by simp
  next
    case 3
    then have "round_half_even q = \<lfloor>q\<rfloor> \<or> round_half_even q = \<lfloor>q\<rfloor> + 1"
      by (simp add: round_half_even_def Let_def)
    with 3 show ?thesis by auto
  qed
qed

lemma round_half_even_nonneg: "0 \<le> q \<Longrightarrow> 0 \<le> round_half_even q"
proof -
  assume "0 \<le> q"
  then have "0 \<le> \<lfloor>q\<rfloor>" by simp
  then show "0 \<le> round_half_even q"
    by (auto simp: round_half_even_def Let_def)
qed

lemma binary64_nonneg: "0 \<le> q \<Longrightarrow> 0 \<le> binary64 q"
  by (auto simp: binary64_def Let_def intro!: mult_nonneg_nonneg round_half_even_nonneg
      divide_nonneg_pos pow2_pos less_imp_le [OF pow2_pos])

lemma binary64_upper:
  assumes "0 < q"
  shows "binary64 q \<le> q + max (q / 2 ^ 53) 1"
proof -
  define p where "p = max (floor_log2 q - 52) (- 1074)"
  have b: "binary64 q = of_int (round_half_even (q / pow2 p)) * pow2 p"
    using assms by (simp add: binary64_def p_def Let_def)
  have "of_int (round_half_even (q / pow2 p)) * pow2 p \<le> (q / pow2 p + 1 / 2) * pow2 p"
    using round_half_even_upper [of "q / pow2 p"] pow2_pos [of p]
    by (simp add: mult_right_mono)
  also have "\<dots> = q + pow2 p / 2"
    using pow2_pos [of p] by (simp add: field_simps)
  finally have 1: "binary64 q \<le> q + pow2 p / 2"
    by (simp add: b)
  have "pow2 p / 2 \<le> max (q / 2 ^ 53) 1"
  proof (cases "- 1074 \<le> floor_log2 q - 52")
    case True
    then have "p = floor_log2 q - 52"
      unfolding p_def by linarith
    then have "pow2 p = pow2 (floor_log2 q - 52)"
      by simp
    also have "\<dots> = pow2 (floor_log2 q) / pow2 52"
      by (rule pow2_diff)
    also have "\<dots> = pow2 (floor_log2 q) / 2 ^ 52"
      by (simp add: pow2_def)
    also have "\<dots> \<le> q / 2 ^ 52"
      using floor_log2_le [OF assms] by (simp add: divide_right_mono)
    finally have "pow2 p / 2 \<le> q / 2 ^ 53" by simp
    then show ?thesis by simp
  next
    case False
    then have "p = - 1074"
      unfolding p_def by linarith
    then have "pow2 p = 1 / 2 ^ 1074"
      by (simp add: pow2_def)
    then have "pow2 p / 2 \<le> 1" by simp
    then show ?thesis by simp
  qed
  with 1 show ?thesis by linarith
qed

lemma py_truediv_nonneg:
  assumes "0 \<le> a" and "0 < b" and "of_int a / of_int b < (2::rat) ^ 1023"
  shows "py_truediv a b = Inr (binary64 (of_int a / of_int b))"
proof -
  define q :: rat where "q = of_int a / of_int b"
  have q0: "0 \<le> q" using assms(1,2) by (simp add: q_def)
  have lt: "binary64 q < 2 ^ 1024"
  proof (cases "q = 0")
    case True
    then show ?thesis by (simp add: binary64_def)
  next
    case False
    with q0 have "0 < q" by simp
    from binary64_upper [OF this] have "binary64 q \<le> q + max (q / 2 ^ 53) 1" .
    moreover have "q / 2 ^ 53 \<le> q" using q0 by (simp add: field_simps)
    moreover have "(1::rat) < 2 ^ 1023" by simp
    moreover have "q < 2 ^ 1023" using assms(3) by (simp add: q_def)
    ultimately have "binary64 q < 2 ^ 1023 + 2 ^ 1023" by (simp add: max_def split: if_splits)
    then show ?thesis by simp
  qed
  have "\<bar>binary64 q\<bar> = binary64 q"
    using binary64_nonneg [OF q0] by simp
  with lt q0 assms(2) show ?thesis
    by (simp add: py_truediv_def Let_def q_def [symmetric] not_less [symmetric])
qed

lemma pow2_mono: "a \<le> b \<Longrightarrow> pow2 a \<le> pow2 b"
  by (simp add: pow2_powi power_int_increasing)

lemma round_half_even_int: "round_half_even (of_int k) = k"
  by (simp add: round_half_even_def)

lemma binary64_int:
  assumes "0 \<le> n" and "n < 2 ^ 53"
  shows "binary64 (of_int n) = of_int n"
proof (cases "n = 0")
  case True
  then show ?thesis by (simp add: binary64_def)
next
  case False
  with assms(1) have pos: "0 < (of_int n :: rat)" by simp
  define p where "p = max (floor_log2 (of_int n) - 52) (- 1074)"
  define j where "j = nat (- p)"
  have "pow2 (floor_log2 (of_int n)) \<le> of_int n"
    by (rule floor_log2_le [OF pos])
  also have "(of_int n :: rat) < 2 ^ 53"
    using assms(2) by (metis of_int_less_iff of_int_numeral of_int_power)
  also have "(2::rat) ^ 53 = pow2 53" by (simp add: pow2_def)
  finally have "\<not> pow2 53 \<le> pow2 (floor_log2 (of_int n))" by simp
  then have "floor_log2 (of_int n) < 53"
    using pow2_mono [of 53 "floor_log2 (of_int n)"] by linarith
  then have p0: "p \<le> 0" unfolding p_def by linarith
  then have pw: "pow2 p = 1 / 2 ^ j"
    by (cases "p = 0") (simp_all add: pow2_def j_def)
  have "of_int n / pow2 p = (of_int (n * 2 ^ j) :: rat)"
    by (simp add: pw)
  then have "round_half_even (of_int n / pow2 p) = n * 2 ^ j"
    by (simp only: round_half_even_int)
  then have "binary64 (of_int n) = of_int (n * 2 ^ j) * pow2 p"
    using False by (simp add: binary64_def p_def Let_def)
  then show ?thesis
    by (simp add: pw)
qed

lemma py_truediv_exact:
  assumes "0 \<le> n" and "n < 2 ^ 53" and "0 < b"
  shows "py_truediv (n * b) b = Inr (of_int n)"
proof -
  have q: "(of_int (n * b) :: rat) / of_int b = of_int n"
    using assms(3) by simp
  have "(of_int n :: rat) < 2 ^ 53"
    using assms(2) by (metis of_int_less_iff of_int_numeral of_int_power)
  then have "\<not> (2::rat) ^ 1024 \<le> of_int n" by simp
  then show ?thesis
    using assms by (simp add: py_truediv_def q Let_def binary64_int del: of_int_mult)
qed

section \<open>The drawing loop\<close>

lemma py_int_digits:
  "digit_string s \<Longrightarrow> max_digits = 0 \<or> length s \<le> max_digits \<Longrightarrow>
     py_int max_digits s = Inr (int (decimal_value s))"
  by (auto simp: py_int_def digit_string_def)

lemma py_int_nonneg: "py_int max_digits s = Inr x \<Longrightarrow> 0 \<le> x"
  by (auto simp: py_int_def split: if_splits)

lemma scaled_edge:
  assumes "0 \<le> x" and "x \<le> 1000" and "n < 2 ^ 1023"
  shows "py_truediv (x * int n) 1000 = Inr (binary64 (of_int x * of_nat n / 1000))"
proof -
  have "(of_int (x * int n) :: rat) / of_int 1000 \<le> of_nat n"
  proof -
    have "(of_int x :: rat) * of_nat n \<le> 1000 * of_nat n"
      using assms(2) by (simp add: mult_right_mono)
    then show ?thesis by simp
  qed
  also have "(of_nat n :: rat) < 2 ^ 1023"
  proof -
    have "(of_nat n :: rat) < of_nat (2 ^ 1023)"
      using assms(3) by (simp only: of_nat_less_iff)
    then show ?thesis by simp
  qed
  finally have "(of_int (x * int n) :: rat) / of_int 1000 < 2 ^ 1023" .
  moreover have "0 \<le> x * int n" using assms(1) by simp
  ultimately show ?thesis
    using py_truediv_nonneg [of "x * int n" 1000] by simp
qed

lemma draw_matches_accepted:
  "list_all2 (\<lambda>m box. scale_match (int_max_str_digits E) w h m = Inr box) ms boxes \<Longrightarrow>
   accepted E img (map green_box boxes) \<Longrightarrow>
   draw_matches E w h img ms = Inr (img\<lparr>drawn := drawn img @ map green_box boxes\<rparr>)"
proof (induction ms arbitrary: img boxes)
  case Nil
  then show ?case by simp
next
  case (Cons m ms)
  then obtain b bs where bs: "boxes = b # bs"
    "scale_match (int_max_str_digits E) w h m = Inr b"
    "list_all2 (\<lambda>m box. scale_match (int_max_str_digits E) w h m = Inr box) ms bs"
    by (auto simp: list_all2_Cons1)
  with Cons.prems(2) have acc: "draw_rectangle E img (green_box b) = None"
    "accepted E (img\<lparr>drawn := drawn img @ [green_box b]\<rparr>) (map green_box bs)"
    by simp_all
  from Cons.IH [OF bs(3) acc(2)] show ?case
    by (simp add: bs acc(1))
qed

lemma draw_matches_rejected:
  "list_all2 (\<lambda>m box. scale_match (int_max_str_digits E) w h m = Inr box) ms boxes \<Longrightarrow>
   \<not> accepted E img (map green_box boxes) \<Longrightarrow>
   \<exists>e. draw_matches E w h img ms = Inl e"
proof (induction ms arbitrary: img boxes)
  case Nil
  then show ?case by simp
next
  case (Cons m ms)
  then obtain b bs where bs: "boxes = b # bs"
    "scale_match (int_max_str_digits E) w h m = Inr b"
    "list_all2 (\<lambda>m box. scale_match (int_max_str_digits E) w h m = Inr box) ms bs"
    by (auto simp: list_all2_Cons1)
  show ?case
  proof (cases "draw_rectangle E img (green_box b)")
    case None
    with Cons.prems(2) bs(1)
    have "\<not> accepted E (img\<lparr>drawn := drawn img @ [green_box b]\<rparr>) (map green_box bs)"
      by simp
    from Cons.IH [OF bs(3) this] show ?thesis
      by (simp add: bs None)
  next
    case (Some e)
    then show ?thesis by (simp add: bs)
  qed
qed

lemma draw_matches_Inr:
  "draw_matches E w h img ms = Inr img' \<Longrightarrow>
   \<exists>boxes. list_all2 (\<lambda>m box. scale_match (int_max_str_digits E) w h m = Inr box) ms boxes \<and>
     accepted E img (map green_box boxes) \<and>
     img' = img\<lparr>drawn := drawn img @ map green_box boxes\<rparr>"
proof (induction ms arbitrary: img)
  case Nil
  then show ?case by simp
next
  case (Cons m ms)
  then obtain b where b: "scale_match (int_max_str_digits E) w h m = Inr b"
    and r: "draw_rectangle E img (green_box b) = None"
    and rest: "draw_matches E w h (img\<lparr>drawn := drawn img @ [green_box b]\<rparr>) ms = Inr img'"
    by (auto split: sum.splits option.splits)
  from Cons.IH [OF rest] obtain bs where
    bs: "list_all2 (\<lambda>m box. scale_match (int_max_str_digits E) w h m = Inr box) ms bs"
      "accepted E (img\<lparr>drawn := drawn img @ [green_box b]\<rparr>) (map green_box bs)"
      "img' = img\<lparr>drawn := drawn img @ [green_box b] @ map green_box bs\<rparr>"
    by auto
  then have "list_all2 (\<lambda>m box. scale_match (int_max_str_digits E) w h m = Inr box) (m # ms) (b # bs) \<and>
     accepted E img (map green_box (b # bs)) \<and>
     img' = img\<lparr>drawn := drawn img @ map green_box (b # bs)\<rparr>"
    using b r by simp
  then show ?case by blast
qed

text \<open>The result of \<open>draw_bounding_boxes\<close> once the image is open and the tuples are scaled.\<close>

lemma render_result:
  assumes "Image_open E image_bytes = Inr pic" and "ImageDraw_Draw E pic = None"
    and "Image_size E pic = (w, h)"
    and "list_all2 (\<lambda>m box. scale_match (int_max_str_digits E) w h m = Inr box)
           (findall response_text) boxes"
  shows "draw_bounding_boxes E image_bytes response_text =
     (if accepted E \<lparr>picture = pic, drawn = []\<rparr> (map green_box boxes)
      then case Image_save E \<lparr>picture = pic, drawn = map green_box boxes\<rparr> ''PNG'' of
             Inl e \<Rightarrow> None
           | Inr buffered \<Rightarrow> Some (b64encode buffered)
      else None)"
proof (cases "accepted E \<lparr>picture = pic, drawn = []\<rparr> (map green_box boxes)")
  case True
  from draw_matches_accepted [OF assms(4) True]
  show ?thesis
    using True assms(1,2,3)
    by (simp add: draw_bounding_boxes_def draw_bounding_boxes_try_def split: sum.splits)
next
  case False
  from draw_matches_rejected [OF assms(4) False]
  show ?thesis
    using False assms(1,2,3)
    by (auto simp: draw_bounding_boxes_def draw_bounding_boxes_try_def split: sum.splits)
qed

lemma occurs_at_less: "occurs_at s k \<Longrightarrow> k < length s"
proof (rule ccontr)
  assume o: "occurs_at s k" and "\<not> k < length s"
  then have "drop k s = []" by simp
  with o show False
    by (auto simp: occurs_at_def dest: pattern_match_nonempty)
qed

lemma span_occurs:
  assumes "(a, b, g) \<in> set (find_spans 0 s)"
  shows "occurs_at s a"
proof -
  from spans_are_matches [OF assms] have ab: "a < b" "b \<le> length s"
    and m: "pattern_match (take (b - a) (drop a s)) g"
    by simp_all
  let ?w = "take (b - a) (drop a s)"
  have "length ?w = b - a" using ab by simp
  then have "take (length ?w) (drop a s) = ?w" by simp
  with m show ?thesis
    unfolding occurs_at_def by blast
qed

lemma no_occurrence_iff: "(\<forall>k. \<not> occurs_at s k) \<longleftrightarrow> findall s = []"
proof
  assume none: "\<forall>k. \<not> occurs_at s k"
  have "find_spans 0 s = []"
  proof (cases "find_spans 0 s")
    case Nil
    then show ?thesis .
  next
    case (Cons x xs)
    obtain a b g where "x = (a, b, g)" by (cases x)
    with Cons have "(a, b, g) \<in> set (find_spans 0 s)" by simp
    from span_occurs [OF this] none show ?thesis by blast
  qed
  then show "findall s = []"
    using findall_spans [of 0 s] by simp
next
  assume "findall s = []"
  then have e: "find_spans 0 s = []"
    using findall_spans [of 0 s] by simp
  show "\<forall>k. \<not> occurs_at s k"
  proof (intro allI notI)
    fix k
    assume o: "occurs_at s k"
    from spans_leftmost [OF occurs_at_less [OF o] o, of 0] e show False by simp
  qed
qed

lemma findall_groups_digits:
  assumes "(g1, g2, g3, g4) \<in> set (findall s)"
  shows "digit_string g1 \<and> digit_string g2 \<and> digit_string g3 \<and> digit_string g4"
proof -
  from assms have "(g1, g2, g3, g4) \<in> (\<lambda>p. snd (snd p)) ` set (find_spans 0 s)"
    by (simp only: findall_spans [of 0 s, symmetric] set_map)
  then obtain a b where "(a, b, g1, g2, g3, g4) \<in> set (find_spans 0 s)"
    by auto
  from spans_are_matches [OF this] show ?thesis
    by (simp add: pattern_match_def)
qed

subsection \<open>Evaluations in the example environment\<close>

lemma findall_scenario:
  "findall ''Hello [[0,0,500,1000]] World'' = [(''0'', ''0'', ''500'', ''1000'')]"
  by code_simp

lemma example_truediv:
  "py_truediv 0 1000 = Inr 0"
  "py_truediv 50000 1000 = Inr 50"
  "py_truediv 250000 1000 = Inr 250"
  "py_truediv 500000 1000 = Inr 500"
  using py_truediv_exact [of 0 1000] py_truediv_exact [of 50 1000]
    py_truediv_exact [of 250 1000] py_truediv_exact [of 500 1000]
  by simp_all

lemma scale_scenario:
  assumes "max_digits = 0 \<or> 4 \<le> max_digits"
  shows "scale_match max_digits 500 500 (''0'', ''0'', ''500'', ''1000'') = Inr [0, 0, 250, 500]"
proof -
  have "py_int max_digits ''0'' = Inr 0" "py_int max_digits ''500'' = Inr 500"
    "py_int max_digits ''1000'' = Inr 1000"
    using assms
    by (auto simp: py_int_def is_digit_def decimal_value_def digit_value_def)
  then show ?thesis
    using example_truediv by (simp add: scale_match_def)
qed

lemma example_images:
  "example_open image_500 = Inr \<lparr>toy_width = 500, toy_height = 500, toy_mode = ''RGB''\<rparr>"
  "example_open cmyk_500 = Inr \<lparr>toy_width = 500, toy_height = 500, toy_mode = ''CMYK''\<rparr>"
  "example_open [] = Inl (OtherError ''cannot identify image file'')"
  by (simp_all add: example_open_def image_500_def cmyk_500_def)

lemma example_b64:
  "b64encode [0x89, 0x50, 0x4E, 0x47, 0] = ''iVBORwA=''"
  "b64encode [0x89, 0x50, 0x4E, 0x47, 1] = ''iVBORwE=''"
  "b64encode [0x89, 0x50, 0x4E, 0x47, 2] = ''iVBORwI=''"
  by (simp_all add: b64_char_def b64_alphabet_def Let_def)

lemma example_findall:
  "findall ''[[100,100,100,100]]'' = [(''100'', ''100'', ''100'', ''100'')]"
  "findall ''[[500,500,100,100]]'' = [(''500'', ''500'', ''100'', ''100'')]"
  "findall ''Hello '' = []"
  by code_simp+

lemma example_ints:
  "py_int 4300 ''0'' = Inr 0" "py_int 4300 ''100'' = Inr 100"
  "py_int 4300 ''200'' = Inr 200" "py_int 4300 ''300'' = Inr 300"
  "py_int 4300 ''400'' = Inr 400"
  "py_int 4300 ''500'' = Inr 500" "py_int 4300 ''1000'' = Inr 1000"
  by (simp_all add: py_int_def is_digit_def decimal_value_def digit_value_def)

lemma example_scale:
  "scale_match 4300 500 500 (''100'', ''100'', ''100'', ''100'') = Inr [50, 50, 50, 50]"
  "scale_match 4300 500 500 (''500'', ''500'', ''100'', ''100'') = Inr [250, 250, 50, 50]"
  by (simp_all add: scale_match_def example_ints example_truediv)

lemma example_accepts:
  "example_rectangle img (green_box [50, 50, 50, 50]) = None"
  "example_rectangle img (green_box [250, 250, 50, 50]) = Some ValueError"
  "example_rectangle img (green_box [0, 0, 250, 500]) = None"
  by (simp_all add: example_rectangle_def green_box_def)

lemma example_saves:
  "example_save \<lparr>picture = \<lparr>toy_width = 500, toy_height = 500, toy_mode = ''RGB''\<rparr>,
                  drawn = rs\<rparr> ''PNG''
     = Inr [0x89, 0x50, 0x4E, 0x47, of_nat (length rs)]"
  "example_save \<lparr>picture = \<lparr>toy_width = 500, toy_height = 500, toy_mode = ''CMYK''\<rparr>,
                  drawn = rs\<rparr> ''PNG''
     = Inl (OtherError ''cannot write mode CMYK as PNG'')"
  by (simp_all add: example_save_def)

lemma example_binary64:
  "binary64 100 = 100" "binary64 200 = 200" "binary64 300 = 300" "binary64 400 = 400"
  using binary64_int [of 100] binary64_int [of 200] binary64_int [of 300] binary64_int [of 400]
  by simp_all

lemma example_decoded:
  "decode_chunk (example_env up) hello_chunk
     = Inr (JObject [(''response'', JString ''Hello ''), (''done'', JBool False)])"
  "decode_chunk (example_env up) world_chunk
     = Inr (JObject [(''response'', JString ''[[0,0,500,1000]] World''),
                     (''done'', JBool True)])"
  by code_simp+

lemma example_spans:
  "find_spans 0 ''a[[1,2,3,4]] [[5, 6,7,8]]''
     = [(1, 12, ''1'', ''2'', ''3'', ''4''), (13, 25, ''5'', ''6'', ''7'', ''8'')]"
  by code_simp

lemma example_small_ints:
  "py_int 4300 ''1'' = Inr 1" "py_int 4300 ''2'' = Inr 2" "py_int 4300 ''3'' = Inr 3"
  "py_int 4300 ''4'' = Inr 4" "py_int 4300 ''5'' = Inr 5" "py_int 4300 ''6'' = Inr 6"
  "py_int 4300 ''7'' = Inr 7" "py_int 4300 ''8'' = Inr 8"
  by (simp_all add: py_int_def is_digit_def decimal_value_def digit_value_def)

lemma example_small_truediv:
  "py_truediv 1000 1000 = Inr 1" "py_truediv 2000 1000 = Inr 2"
  "py_truediv 3000 1000 = Inr 3" "py_truediv 4000 1000 = Inr 4"
  "py_truediv 5000 1000 = Inr 5" "py_truediv 6000 1000 = Inr 6"
  "py_truediv 7000 1000 = Inr 7" "py_truediv 8000 1000 = Inr 8"
  using py_truediv_exact [of 1 1000] py_truediv_exact [of 2 1000] py_truediv_exact [of 3 1000]
    py_truediv_exact [of 4 1000] py_truediv_exact [of 5 1000] py_truediv_exact [of 6 1000]
    py_truediv_exact [of 7 1000] py_truediv_exact [of 8 1000]
  by simp_all

subsection \<open>The claims about the annotation\<close>

text \<open>
  Claim C3.  Whatever exception the body of \<open>draw_bounding_boxes\<close> raises, for any image
  bytes and any text (an image that cannot be opened and a failing \<open>save\<close> included), the
  function returns \<open>None\<close>, and a request whose stream was read to the end still returns
  the accumulated text, with no annotation.
\<close>

theorem annotation_failure_absorbed:
  assumes "post_stream E OLLAMA_API_URL (request_payload image_data p)
             = Responded status chunks None"
    and "200 \<le> status" and "status \<le> 299"
    and "chunk_loop E [] chunks = Inr t"
    and "draw_bounding_boxes_try E image_data t = Inl e"
  shows "draw_bounding_boxes E image_data t = None \<and>
         perform_ocr E image_data p =
           Inr \<lparr>text_key = t, processed_image = None, done_key = True\<rparr>"
proof -
  have "draw_bounding_boxes E image_data t = None"
    by (simp add: draw_bounding_boxes_def assms(5))
  then show ?thesis
    using assms(2,3,4)
    by (simp add: perform_ocr_def perform_ocr_try_responded [OF assms(1)] raise_for_status_def)
qed

theorem annotation_failure_absorbed_witness:
  "draw_bounding_boxes (example_env (Responded 200 [hello_chunk, done_chunk] None)) []
       ''Hello '' = None \<and>
   perform_ocr (example_env (Responded 200 [hello_chunk, done_chunk] None)) [] ''read'' =
     Inr \<lparr>text_key = ''Hello '', processed_image = None, done_key = True\<rparr>"
proof (rule annotation_failure_absorbed)
  let ?E = "example_env (Responded 200 [hello_chunk, done_chunk] None)"
  show "post_stream ?E OLLAMA_API_URL (request_payload [] ''read'')
      = Responded 200 [hello_chunk, done_chunk] None"
    by simp
  show "(200::nat) \<le> 200" "(200::nat) \<le> 299"
    by simp_all
  show "chunk_loop ?E [] [hello_chunk, done_chunk] = Inr ''Hello ''"
    by (simp add: on_chunk_fragment example_deltas example_printed)
  show "draw_bounding_boxes_try ?E [] ''Hello '' = Inl (OtherError ''cannot identify image file'')"
    by (simp add: draw_try_open_fails example_open_def)
qed

text \<open>
  Claim C4, as amended.  The renderer looks at no relation between the four values of a
  tuple: every matched tuple, degenerate or not, is scaled and handed to the drawing
  primitive as it is, in the order of the matches, and the renderer never raises.  The
  annotated image is returned exactly when the primitive accepts every rectangle and the
  image can be saved; a rectangle that the primitive refuses makes the result \<open>None\<close>.
\<close>

theorem degenerate_boxes_no_special_case:
  assumes "Image_open E image_bytes = Inr pic" and "ImageDraw_Draw E pic = None"
    and "Image_size E pic = (w, h)"
    and "list_all2 (\<lambda>m box. scale_match (int_max_str_digits E) w h m = Inr box)
           (findall response_text) boxes"
  shows "draw_bounding_boxes E image_bytes response_text =
     (if accepted E \<lparr>picture = pic, drawn = []\<rparr> (map green_box boxes)
      then case Image_save E \<lparr>picture = pic, drawn = map green_box boxes\<rparr> ''PNG'' of
             Inl e \<Rightarrow> None
           | Inr buffered \<Rightarrow> Some (b64encode buffered)
      else None)"
  using assms by (rule render_result)

theorem degenerate_boxes_no_special_case_witness:
  "draw_bounding_boxes (example_env (Unreachable [])) image_500 ''[[100,100,100,100]]''
     = Some ''iVBORwE=''"
proof -
  let ?E = "example_env (Unreachable [])"
  let ?pic = "\<lparr>toy_width = 500, toy_height = 500, toy_mode = ''RGB''\<rparr>"
  have "list_all2 (\<lambda>m box. scale_match (int_max_str_digits ?E) 500 500 m = Inr box)
      (findall ''[[100,100,100,100]]'') [[50, 50, 50, 50]]"
    by (subst example_findall) (simp add: example_scale)
  from degenerate_boxes_no_special_case [of ?E image_500 ?pic 500 500, OF _ _ _ this]
  have "draw_bounding_boxes ?E image_500 ''[[100,100,100,100]]''
      = Some (b64encode [0x89, 0x50, 0x4E, 0x47, 1])"
    by (simp add: example_images example_accepts example_saves del: b64encode.simps)
  then show ?thesis
    by (simp only: example_b64)
qed

text \<open>
  The claim as stated fails where the drawing primitive refuses an inverted rectangle.
  The tuple below is matched and scaled to (250, 250, 50, 50); the primitive of the
  example environment raises a \<open>ValueError\<close> on it, as Pillow does, and no annotated image
  is produced.
\<close>

theorem inverted_box_prevents_annotation:
  "findall ''[[500,500,100,100]]'' = [(''500'', ''500'', ''100'', ''100'')] \<and>
   Image_open (example_env (Unreachable [])) image_500
     = Inr \<lparr>toy_width = 500, toy_height = 500, toy_mode = ''RGB''\<rparr> \<and>
   draw_bounding_boxes (example_env (Unreachable [])) image_500 ''[[500,500,100,100]]'' = None"
proof (intro conjI)
  let ?E = "example_env (Unreachable [])"
  let ?pic = "\<lparr>toy_width = 500, toy_height = 500, toy_mode = ''RGB''\<rparr>"
  show "findall ''[[500,500,100,100]]'' = [(''500'', ''500'', ''100'', ''100'')]"
    by (rule example_findall)
  show "Image_open ?E image_500 = Inr ?pic"
    by (simp add: example_images)
  have "list_all2 (\<lambda>m box. scale_match (int_max_str_digits ?E) 500 500 m = Inr box)
      (findall ''[[500,500,100,100]]'') [[250, 250, 50, 50]]"
    by (subst example_findall) (simp add: example_scale)
  from render_result [of ?E image_500 ?pic 500 500, OF _ _ _ this]
  show "draw_bounding_boxes ?E image_500 ''[[500,500,100,100]]'' = None"
    by (simp add: example_images example_accepts)
qed

text \<open>
  Claim C5.  For a tuple whose four integers are at most 1000 and an image of width \<open>w\<close>
  and height \<open>h\<close> (below \<open>2^1023\<close>, as every image is), the rectangle handed to the drawing
  primitive has the edges \<open>x1 w / 1000\<close>, \<open>y1 h / 1000\<close>, \<open>x2 w / 1000\<close> and \<open>y2 h / 1000\<close>,
  each rounded to the nearest float; the values are not clamped.
\<close>

theorem scaled_rectangle_edges:
  assumes "py_int (int_max_str_digits E) g1 = Inr x1" and "py_int (int_max_str_digits E) g2 = Inr y1"
    and "py_int (int_max_str_digits E) g3 = Inr x2" and "py_int (int_max_str_digits E) g4 = Inr y2"
    and "x1 \<le> 1000" and "y1 \<le> 1000" and "x2 \<le> 1000" and "y2 \<le> 1000"
    and "w < 2 ^ 1023" and "h < 2 ^ 1023"
    and "box = [binary64 (of_int x1 * of_nat w / 1000), binary64 (of_int y1 * of_nat h / 1000),
                binary64 (of_int x2 * of_nat w / 1000), binary64 (of_int y2 * of_nat h / 1000)]"
  shows "scale_match (int_max_str_digits E) w h (g1, g2, g3, g4) = Inr box \<and>
         draw_matches E w h img [(g1, g2, g3, g4)] =
           (case draw_rectangle E img (green_box box) of
              Some e \<Rightarrow> Inl e
            | None \<Rightarrow> Inr (img\<lparr>drawn := drawn img @ [green_box box]\<rparr>))"
proof -
  have "scale_match (int_max_str_digits E) w h (g1, g2, g3, g4) = Inr box"
    using assms(1-4)
      scaled_edge [OF py_int_nonneg [OF assms(1)] assms(5) assms(9)]
      scaled_edge [OF py_int_nonneg [OF assms(2)] assms(6) assms(10)]
      scaled_edge [OF py_int_nonneg [OF assms(3)] assms(7) assms(9)]
      scaled_edge [OF py_int_nonneg [OF assms(4)] assms(8) assms(10)]
    by (simp add: scale_match_def assms(11))
  then show ?thesis
    by (simp split: option.splits)
qed

theorem scaled_rectangle_edges_witness:
  "scale_match 4300 1000 1000 (''100'', ''200'', ''300'', ''400'') = Inr [100, 200, 300, 400] \<and>
   draw_matches (example_env (Unreachable [])) 1000 1000
       \<lparr>picture = \<lparr>toy_width = 1000, toy_height = 1000, toy_mode = ''RGB''\<rparr>, drawn = []\<rparr>
       [(''100'', ''200'', ''300'', ''400'')]
     = Inr \<lparr>picture = \<lparr>toy_width = 1000, toy_height = 1000, toy_mode = ''RGB''\<rparr>,
            drawn = [green_box [100, 200, 300, 400]]\<rparr>"
proof -
  let ?E = "example_env (Unreachable [])"
  let ?img = "\<lparr>picture = \<lparr>toy_width = 1000, toy_height = 1000, toy_mode = ''RGB''\<rparr>,
               drawn = []\<rparr>"
  have i: "py_int (int_max_str_digits ?E) ''100'' = Inr 100"
    "py_int (int_max_str_digits ?E) ''200'' = Inr 200"
    "py_int (int_max_str_digits ?E) ''300'' = Inr 300"
    "py_int (int_max_str_digits ?E) ''400'' = Inr 400"
    by (simp_all add: example_ints)
  have le: "(100::int) \<le> 1000" "(200::int) \<le> 1000" "(300::int) \<le> 1000" "(400::int) \<le> 1000"
    by simp_all
  have w: "(1000::nat) < 2 ^ 1023" by simp
  have box: "[100, 200, 300, 400] =
      [binary64 (of_int 100 * of_nat 1000 / 1000), binary64 (of_int 200 * of_nat 1000 / 1000),
       binary64 (of_int 300 * of_nat 1000 / 1000), binary64 (of_int 400 * of_nat 1000 / 1000)]"
    by (simp add: example_binary64)
  have acc: "example_rectangle ?img (green_box [100, 200, 300, 400]) = None"
    by (simp add: example_rectangle_def green_box_def)
  from scaled_rectangle_edges [OF i le w w box, of ?img]
  show ?thesis
    by (simp add: acc del: draw_matches.simps)
qed

text \<open>
  Claim C6, as amended.  When the pattern occurs nowhere in the text and the image can be
  opened, no rectangle is drawn: the result is the encoding of the image exactly as it
  was opened whenever \<open>save\<close> succeeds, and \<open>None\<close> when \<open>save\<close> raises.
\<close>

theorem no_match_image_unchanged:
  assumes "Image_open E image_bytes = Inr pic" and "ImageDraw_Draw E pic = None"
    and "\<forall>k. \<not> occurs_at response_text k"
  shows "draw_bounding_boxes E image_bytes response_text =
     (case Image_save E \<lparr>picture = pic, drawn = []\<rparr> ''PNG'' of
        Inl e \<Rightarrow> None
      | Inr buffered \<Rightarrow> Some (b64encode buffered))"
proof -
  have "findall response_text = []"
    using assms(3) by (simp add: no_occurrence_iff)
  then show ?thesis
    using assms(1,2)
    by (simp add: draw_bounding_boxes_def draw_bounding_boxes_try_def
        split: prod.splits sum.splits)
qed

theorem no_match_image_unchanged_witness:
  "draw_bounding_boxes (example_env (Unreachable [])) image_500 ''Hello '' = Some ''iVBORwA=''"
proof -
  let ?E = "example_env (Unreachable [])"
  have "\<forall>k. \<not> occurs_at ''Hello '' k"
    by (simp only: no_occurrence_iff example_findall)
  from no_match_image_unchanged [of ?E image_500 _ "''Hello ''", OF _ _ this]
  have "draw_bounding_boxes ?E image_500 ''Hello ''
      = Some (b64encode [0x89, 0x50, 0x4E, 0x47, 0])"
    by (simp add: example_images example_saves del: b64encode.simps)
  then show ?thesis
    by (simp only: example_b64)
qed

text \<open>
  The claim as stated fails for an image that can be opened but not saved as PNG, here a
  CMYK picture: the text has no match, yet the result is \<open>None\<close>.
\<close>

theorem unsaveable_image_no_annotation:
  "Image_open (example_env (Unreachable [])) cmyk_500
     = Inr \<lparr>toy_width = 500, toy_height = 500, toy_mode = ''CMYK''\<rparr> \<and>
   ImageDraw_Draw (example_env (Unreachable []))
     \<lparr>toy_width = 500, toy_height = 500, toy_mode = ''CMYK''\<rparr> = None \<and>
   findall ''Hello '' = [] \<and>
   draw_bounding_boxes (example_env (Unreachable [])) cmyk_500 ''Hello '' = None"
proof (intro conjI)
  let ?E = "example_env (Unreachable [])"
  let ?pic = "\<lparr>toy_width = 500, toy_height = 500, toy_mode = ''CMYK''\<rparr>"
  show "Image_open ?E cmyk_500 = Inr ?pic"
    by (simp add: example_images)
  show "ImageDraw_Draw ?E ?pic = None"
    by simp
  show "findall ''Hello '' = []"
    by (rule example_findall)
  have "list_all2 (\<lambda>m box. scale_match (int_max_str_digits ?E) 500 500 m = Inr box)
      (findall ''Hello '') []"
    by (subst example_findall) simp
  from render_result [of ?E cmyk_500 ?pic 500 500, OF _ _ _ this]
  show "draw_bounding_boxes ?E cmyk_500 ''Hello '' = None"
    by (simp add: example_images example_saves)
qed

text \<open>
  Claim C8.  The matches are the occurrences of the pattern found from left to right: each
  is a match of the pattern in the text, they follow one another without overlap, every
  position where the pattern matches lies inside one of them, and the rectangles on the
  image are those of the matches in the same order.
\<close>

theorem matches_in_order_of_appearance:
  "findall s = map (\<lambda>p. snd (snd p)) (find_spans 0 s) \<and>
   (\<forall>(a, b, g) \<in> set (find_spans 0 s).
      a < b \<and> b \<le> length s \<and> pattern_match (take (b - a) (drop a s)) g) \<and>
   sorted_wrt (\<lambda>x y. fst (snd x) \<le> fst y) (find_spans 0 s) \<and>
   (\<forall>k. occurs_at s k \<longrightarrow> (\<exists>(a, b, g) \<in> set (find_spans 0 s). a \<le> k \<and> k < b)) \<and>
   (draw_matches E w h img (findall s) = Inr img' \<longrightarrow>
      (\<exists>boxes. list_all2 (\<lambda>m box. scale_match (int_max_str_digits E) w h m = Inr box)
                 (findall s) boxes \<and>
               drawn img' = drawn img @ map green_box boxes))"
proof (intro conjI)
  show "findall s = map (\<lambda>p. snd (snd p)) (find_spans 0 s)"
    by (simp add: findall_spans)
  show "\<forall>(a, b, g) \<in> set (find_spans 0 s).
      a < b \<and> b \<le> length s \<and> pattern_match (take (b - a) (drop a s)) g"
    using spans_are_matches [of _ _ _ 0 s] by auto
  show "sorted_wrt (\<lambda>x y. fst (snd x) \<le> fst y) (find_spans 0 s)"
    by (rule spans_ordered)
  show "\<forall>k. occurs_at s k \<longrightarrow> (\<exists>(a, b, g) \<in> set (find_spans 0 s). a \<le> k \<and> k < b)"
    using spans_leftmost [of _ s 0] occurs_at_less [of s] by auto
  show "draw_matches E w h img (findall s) = Inr img' \<longrightarrow>
      (\<exists>boxes. list_all2 (\<lambda>m box. scale_match (int_max_str_digits E) w h m = Inr box)
                 (findall s) boxes \<and>
               drawn img' = drawn img @ map green_box boxes)"
  proof
    assume "draw_matches E w h img (findall s) = Inr img'"
    from draw_matches_Inr [OF this] obtain boxes where
      "list_all2 (\<lambda>m box. scale_match (int_max_str_digits E) w h m = Inr box) (findall s) boxes"
      "img' = img\<lparr>drawn := drawn img @ map green_box boxes\<rparr>"
      by blast
    then have "list_all2 (\<lambda>m box. scale_match (int_max_str_digits E) w h m = Inr box)
                 (findall s) boxes \<and>
               drawn img' = drawn img @ map green_box boxes"
      by simp
    then show "\<exists>boxes. list_all2 (\<lambda>m box. scale_match (int_max_str_digits E) w h m = Inr box)
                 (findall s) boxes \<and>
               drawn img' = drawn img @ map green_box boxes"
      by blast
  qed
qed

theorem matches_in_order_of_appearance_witness:
  "findall ''a[[1,2,3,4]] [[5, 6,7,8]]''
     = [(''1'', ''2'', ''3'', ''4''), (''5'', ''6'', ''7'', ''8'')] \<and>
   pattern_match (take (12 - 1) (drop 1 ''a[[1,2,3,4]] [[5, 6,7,8]]''))
     (''1'', ''2'', ''3'', ''4'') \<and>
   pattern_match (take (25 - 13) (drop 13 ''a[[1,2,3,4]] [[5, 6,7,8]]''))
     (''5'', ''6'', ''7'', ''8'') \<and>
   (\<exists>(a, b, g) \<in> set (find_spans 0 ''a[[1,2,3,4]] [[5, 6,7,8]]''). a \<le> 13 \<and> 13 < b) \<and>
   (\<exists>boxes.
      list_all2 (\<lambda>m box. scale_match 4300 1000 1000 m = Inr box)
        (findall ''a[[1,2,3,4]] [[5, 6,7,8]]'') boxes \<and>
      [green_box [1, 2, 3, 4], green_box [5, 6, 7, 8]] = map green_box boxes)"
proof -
  let ?s = "''a[[1,2,3,4]] [[5, 6,7,8]]''"
  let ?E = "example_env (Unreachable [])"
  let ?pic = "\<lparr>toy_width = 1000, toy_height = 1000, toy_mode = ''RGB''\<rparr>"
  let ?img = "\<lparr>picture = ?pic, drawn = []\<rparr>"
  let ?img' = "\<lparr>picture = ?pic, drawn = [green_box [1, 2, 3, 4], green_box [5, 6, 7, 8]]\<rparr>"
  note inst = matches_in_order_of_appearance [of ?s ?E 1000 1000 ?img ?img']
  have fa: "findall ?s = [(''1'', ''2'', ''3'', ''4''), (''5'', ''6'', ''7'', ''8'')]"
    using inst by (simp only: example_spans) simp
  have m1: "pattern_match (take (12 - 1) (drop 1 ?s)) (''1'', ''2'', ''3'', ''4'')"
    and m2: "pattern_match (take (25 - 13) (drop 13 ?s)) (''5'', ''6'', ''7'', ''8'')"
    using inst by (simp_all only: example_spans) simp_all
  have "occurs_at ?s 13"
    by (rule span_occurs [of 13 25 "(''5'', ''6'', ''7'', ''8'')"]) (subst example_spans, simp)
  with inst have cover: "\<exists>(a, b, g) \<in> set (find_spans 0 ?s). a \<le> 13 \<and> 13 < b"
    by blast
  have sc: "scale_match 4300 1000 1000 (''1'', ''2'', ''3'', ''4'') = Inr [1, 2, 3, 4]"
    "scale_match 4300 1000 1000 (''5'', ''6'', ''7'', ''8'') = Inr [5, 6, 7, 8]"
    by (simp_all add: scale_match_def example_small_ints example_small_truediv)
  have "list_all2 (\<lambda>m box. scale_match (int_max_str_digits ?E) 1000 1000 m = Inr box)
      (findall ?s) [[1, 2, 3, 4], [5, 6, 7, 8]]"
    by (subst fa) (simp add: sc)
  moreover have "accepted ?E ?img (map green_box [[1, 2, 3, 4], [5, 6, 7, 8]])"
    by (simp add: example_rectangle_def green_box_def)
  ultimately have "draw_matches ?E 1000 1000 ?img (findall ?s) = Inr ?img'"
    by (simp add: draw_matches_accepted del: findall.simps)
  with inst have "\<exists>boxes.
      list_all2 (\<lambda>m box. scale_match (int_max_str_digits ?E) 1000 1000 m = Inr box)
        (findall ?s) boxes \<and>
      drawn ?img' = drawn ?img @ map green_box boxes"
    by blast
  then have drawn: "\<exists>boxes.
      list_all2 (\<lambda>m box. scale_match 4300 1000 1000 m = Inr box) (findall ?s) boxes \<and>
      [green_box [1, 2, 3, 4], green_box [5, 6, 7, 8]] = map green_box boxes"
    by (simp del: findall.simps)
  from fa m1 m2 cover drawn show ?thesis
    by (intro conjI)
qed

text \<open>
  Claim C9.  The scenario of the specification: the prompt \<open>extract text\<close>, an image of
  500 by 500 pixels, a stream of the two fragments with the deltas \<open>Hello\<close> and
  \<open>[[0,0,500,1000]] World\<close>, both printed on the console.  The request returns the text
  \<open>Hello [[0,0,500,1000]] World\<close>, and the renderer hands exactly one rectangle to the
  drawing primitive, from (0, 0) to (250, 500); the annotation is the encoding of the
  image with that one rectangle on it (\<open>None\<close> if the primitive or \<open>save\<close> raises).
\<close>

theorem end_to_end_scenario:
  assumes "post_stream E OLLAMA_API_URL (request_payload image_data ''extract text'')
             = Responded 200 [hello_chunk, world_chunk] None"
    and "decode_chunk E hello_chunk
           = Inr (JObject [(''response'', JString ''Hello ''), (''done'', JBool False)])"
    and "decode_chunk E world_chunk
           = Inr (JObject [(''response'', JString ''[[0,0,500,1000]] World''),
                           (''done'', JBool True)])"
    and "delta_printed E ''Hello ''" and "delta_printed E ''[[0,0,500,1000]] World''"
    and "Image_open E image_data = Inr pic" and "ImageDraw_Draw E pic = None"
    and "Image_size E pic = (500, 500)"
    and "int_max_str_digits E = 0 \<or> 4 \<le> int_max_str_digits E"
  shows "perform_ocr E image_data ''extract text'' =
           Inr \<lparr>text_key = ''Hello [[0,0,500,1000]] World'',
                processed_image =
                  (if draw_rectangle E \<lparr>picture = pic, drawn = []\<rparr> (green_box [0, 0, 250, 500])
                      = None
                   then case Image_save E \<lparr>picture = pic, drawn = [green_box [0, 0, 250, 500]]\<rparr>
                               ''PNG'' of
                          Inl e \<Rightarrow> None
                        | Inr buffered \<Rightarrow> Some (b64encode buffered)
                   else None),
                done_key = True\<rparr>"
proof -
  have d: "chunk_delta E hello_chunk = Some ''Hello ''"
    "chunk_delta E world_chunk = Some ''[[0,0,500,1000]] World''"
    by (simp_all add: chunk_delta_def example_nonempty assms(2,3))
  then have loop: "chunk_loop E [] [hello_chunk, world_chunk] = Inr ''Hello [[0,0,500,1000]] World''"
    by (simp add: on_chunk_fragment assms(4,5))
  have boxes: "list_all2 (\<lambda>m box. scale_match (int_max_str_digits E) 500 500 m = Inr box)
      (findall ''Hello [[0,0,500,1000]] World'') [[0, 0, 250, 500]]"
    by (subst findall_scenario) (simp add: scale_scenario [OF assms(9)])
  have "draw_bounding_boxes E image_data ''Hello [[0,0,500,1000]] World'' =
      (if draw_rectangle E \<lparr>picture = pic, drawn = []\<rparr> (green_box [0, 0, 250, 500]) = None
       then case Image_save E \<lparr>picture = pic, drawn = [green_box [0, 0, 250, 500]]\<rparr> ''PNG'' of
              Inl e \<Rightarrow> None
            | Inr buffered \<Rightarrow> Some (b64encode buffered)
       else None)"
    unfolding render_result [OF assms(6,7,8) boxes] by simp
  then show ?thesis
    using loop
    by (simp add: perform_ocr_def perform_ocr_try_responded [OF assms(1)] raise_for_status_def)
qed

theorem end_to_end_scenario_witness:
  "perform_ocr (example_env (Responded 200 [hello_chunk, world_chunk] None)) image_500
       ''extract text'' =
     Inr \<lparr>text_key = ''Hello [[0,0,500,1000]] World'',
          processed_image = Some ''iVBORwE='',
          done_key = True\<rparr>"
proof -
  let ?E = "example_env (Responded 200 [hello_chunk, world_chunk] None)"
  let ?pic = "\<lparr>toy_width = 500, toy_height = 500, toy_mode = ''RGB''\<rparr>"
  have 1: "post_stream ?E OLLAMA_API_URL (request_payload image_500 ''extract text'')
      = Responded 200 [hello_chunk, world_chunk] None"
    by simp
  have 6: "Image_open ?E image_500 = Inr ?pic"
    by (simp add: example_images)
  have 7: "ImageDraw_Draw ?E ?pic = None"
    by simp
  have 8: "Image_size ?E ?pic = (500, 500)"
    by simp
  have 9: "int_max_str_digits ?E = 0 \<or> 4 \<le> int_max_str_digits ?E"
    by simp
  from end_to_end_scenario [OF 1 example_decoded example_printed(1,2) 6 7 8 9]
  have "perform_ocr ?E image_500 ''extract text'' =
     Inr \<lparr>text_key = ''Hello [[0,0,500,1000]] World'',
          processed_image = Some (b64encode [0x89, 0x50, 0x4E, 0x47, 1]),
          done_key = True\<rparr>"
    by (simp add: example_accepts example_saves del: b64encode.simps)
  then show ?thesis
    by (simp only: example_b64)
qed

end
